theory Spec2Isabelle
  imports Complex_Main "HOL-Library.Log_Nat"
begin

section \<open>Python values, exceptions and the outside world\<close>

text \<open>
  The agent handles JSON-shaped Python values whose type is only known at run time
  (\<^verbatim>\<open>Dict[str, Any]\<close>): the arguments of a tool call come from the model. A dictionary is
  an association list with string keys, looked up with \<open>map_of\<close>.
  A Python \<^verbatim>\<open>float\<close> is the rational it denotes (no NaN, no infinity).
  A Python \<^verbatim>\<open>str\<close> is the list of its code points, each a \<open>char\<close>: the texts of the
  model are those whose code points are below 256.
\<close>

datatype pyval =
    PNone
  | PBool bool
  | PInt int
  | PFloat rat
  | PStr string
  | PList "pyval list"
  | PDict "(string \<times> pyval) list"

text \<open>
  Exceptions are values. \<open>LibraryError\<close> is any exception derived from
  \<^verbatim>\<open>Exception\<close> that a library call (pyautogui, mss, PIL, ollama) raises, with its text;
  \<open>KeyboardInterrupt\<close> is the only exception of the model that does not derive
  from \<^verbatim>\<open>Exception\<close>.
\<close>

datatype exn =
    TypeError
  | AttributeError
  | KeyError
  | IndexError
  | JSONDecodeError
  | OverflowError
  | LibraryError string
  | KeyboardInterrupt

definition is_Exception :: "exn \<Rightarrow> bool" where
  "is_Exception e = (e \<noteq> KeyboardInterrupt)"

text \<open>
  The calls that leave the program: mss/PIL (\<open>CaptureScreen\<close>, \<open>SaveScreenshot\<close>), the
  inference service (\<open>ChatWithImage\<close> with the user prompt), pyautogui
  (\<open>Click x y button clicks\<close>, \<open>MoveTo x y duration\<close>, \<open>Drag x y duration\<close>,
  \<open>Write text interval\<close>, \<open>Press key\<close>, \<open>Scroll clicks\<close>, \<open>Position\<close>) and
  \<^verbatim>\<open>time.sleep\<close> (\<open>Sleep seconds\<close>).
\<close>

datatype event =
    CaptureScreen
  | SaveScreenshot
  | ChatWithImage string
  | Click int int string int
  | MoveTo int int rat
  | Drag int int rat
  | Write pyval rat
  | Press pyval
  | Scroll pyval
  | Position
  | Sleep rat

text \<open>The reply of the inference service: \<^verbatim>\<open>{message: {content, tool_calls}}\<close>, every key
  optional (\<open>None\<close> is an absent key).\<close>

record message =
  content :: "string option"
  tool_calls :: "pyval list option"

record response =
  msg :: "message option"

text \<open>
  The outside world answers every call: \<open>os_call k ev\<close> is the exception that call \<open>ev\<close>
  raises when made during iteration \<open>k\<close> (\<open>None\<close>: it returns), \<open>chat k prompt\<close> is the
  reply of the model or the exception of the round trip, \<open>json_loads\<close> is
  \<^verbatim>\<open>json.loads\<close> (\<open>None\<close>: \<^verbatim>\<open>JSONDecodeError\<close>).
\<close>

record env =
  os_call :: "int \<Rightarrow> event \<Rightarrow> exn option"
  chat :: "int \<Rightarrow> string \<Rightarrow> exn + response"
  json_loads :: "string \<Rightarrow> pyval option"

text \<open>The constructor arguments of \<^verbatim>\<open>SeeThinkActAgent\<close> and \<^verbatim>\<open>ActionExecutor\<close>
  that the code reads.\<close>

record config =
  max_iterations :: int
  save_screenshots :: bool
  screen_width :: int
  screen_height :: int

text \<open>
  The mutable fields of the agent (\<^verbatim>\<open>self.iteration_count\<close>, \<^verbatim>\<open>self.task_completed\<close>,
  \<^verbatim>\<open>self.task_status\<close>, \<^verbatim>\<open>self.conversation_history\<close>), and the calls made so far, each
  with the iteration that made it.
\<close>

record state =
  iteration_count :: int
  task_completed :: bool
  task_status :: pyval
  conversation_history :: "(int \<times> response) list"
  trace :: "(int \<times> event) list"

section \<open>Statements that may raise and that change the state\<close>

type_synonym 'a prog = "state \<Rightarrow> (exn + 'a) \<times> state"

definition returnM :: "'a \<Rightarrow> 'a prog" where
  "returnM x = (\<lambda>s. (Inr x, s))"

definition raiseM :: "exn \<Rightarrow> 'a prog" where
  "raiseM e = (\<lambda>s. (Inl e, s))"

definition liftE :: "exn + 'a \<Rightarrow> 'a prog" where
  "liftE r = (\<lambda>s. (r, s))"

definition bindM :: "'a prog \<Rightarrow> ('a \<Rightarrow> 'b prog) \<Rightarrow> 'b prog" where
  "bindM m f = (\<lambda>s. case m s of (Inl e, s') \<Rightarrow> (Inl e, s') | (Inr x, s') \<Rightarrow> f x s')"

text \<open>\<^verbatim>\<open>try: m except <handles> as e: h e\<close>; an exception the clause does not name goes on.\<close>

definition catchM :: "'a prog \<Rightarrow> (exn \<Rightarrow> bool) \<Rightarrow> (exn \<Rightarrow> 'a prog) \<Rightarrow> 'a prog" where
  "catchM m handles h =
     (\<lambda>s. case m s of
            (Inl e, s') \<Rightarrow> if handles e then h e s' else (Inl e, s')
          | (Inr x, s') \<Rightarrow> (Inr x, s'))"

definition bindE :: "exn + 'a \<Rightarrow> ('a \<Rightarrow> exn + 'b) \<Rightarrow> exn + 'b" where
  "bindE r f = (case r of Inl e \<Rightarrow> Inl e | Inr x \<Rightarrow> f x)"

definition call :: "env \<Rightarrow> event \<Rightarrow> unit prog" where
  "call E ev =
     (\<lambda>s. let s' = s\<lparr>trace := trace s @ [(iteration_count s, ev)]\<rparr>
          in case os_call E (iteration_count s) ev of
               None \<Rightarrow> (Inr (), s')
             | Some e \<Rightarrow> (Inl e, s'))"

definition chat_call :: "env \<Rightarrow> string \<Rightarrow> response prog" where
  "chat_call E prompt =
     (\<lambda>s. (chat E (iteration_count s) prompt,
           s\<lparr>trace := trace s @ [(iteration_count s, ChatWithImage prompt)]\<rparr>))"

section \<open>Python operations on values\<close>

text \<open>\<^verbatim>\<open>bool(v)\<close>, as \<^verbatim>\<open>if v\<close>, \<^verbatim>\<open>not v\<close> and \<^verbatim>\<open>v or w\<close> use it.\<close>

fun truthy :: "pyval \<Rightarrow> bool" where
  "truthy PNone = False"
| "truthy (PBool b) = b"
| "truthy (PInt i) = (i \<noteq> 0)"
| "truthy (PFloat q) = (q \<noteq> 0)"
| "truthy (PStr s) = (s \<noteq> [])"
| "truthy (PList xs) = (xs \<noteq> [])"
| "truthy (PDict d) = (d \<noteq> [])"

text \<open>\<^verbatim>\<open>v.get(key, default)\<close>: only a dictionary has the method.\<close>

fun py_get :: "pyval \<Rightarrow> string \<Rightarrow> pyval \<Rightarrow> exn + pyval" where
  "py_get (PDict d) k dflt = (case map_of d k of None \<Rightarrow> Inr dflt | Some v \<Rightarrow> Inr v)"
| "py_get _ k dflt = Inl AttributeError"

text \<open>\<^verbatim>\<open>v[i]\<close> with a literal index \<open>i\<close> that is not negative.\<close>

fun py_index :: "pyval \<Rightarrow> nat \<Rightarrow> exn + pyval" where
  "py_index (PList xs) i = (if i < length xs then Inr (xs ! i) else Inl IndexError)"
| "py_index (PStr s) i = (if i < length s then Inr (PStr [s ! i]) else Inl IndexError)"
| "py_index (PDict d) i = Inl KeyError"
| "py_index _ i = Inl TypeError"

text \<open>\<^verbatim>\<open>v[key]\<close> with a string key.\<close>

fun py_item :: "pyval \<Rightarrow> string \<Rightarrow> exn + pyval" where
  "py_item (PDict d) k = (case map_of d k of None \<Rightarrow> Inl KeyError | Some v \<Rightarrow> Inr v)"
| "py_item _ k = Inl TypeError"

text \<open>\<^verbatim>\<open>sub in s\<close> on strings.\<close>

fun starts_with :: "string \<Rightarrow> string \<Rightarrow> bool" where
  "starts_with s [] = True"
| "starts_with [] (p # ps) = False"
| "starts_with (c # cs) (p # ps) = (c = p \<and> starts_with cs ps)"

fun contains :: "string \<Rightarrow> string \<Rightarrow> bool" where
  "contains [] sub = (sub = [])"
| "contains (c # cs) sub = (starts_with (c # cs) sub \<or> contains cs sub)"

text \<open>\<^verbatim>\<open>key in v\<close> with a string key: a key of a dictionary, an element of a list, a
  substring of a string.\<close>

fun py_in :: "string \<Rightarrow> pyval \<Rightarrow> exn + bool" where
  "py_in k (PDict d) = Inr (map_of d k \<noteq> None)"
| "py_in k (PList xs) = Inr (PStr k \<in> set xs)"
| "py_in k (PStr s) = Inr (contains s k)"
| "py_in k _ = Inl TypeError"

text \<open>\<^verbatim>\<open>str.lower\<close>: the code points below 256 that have a lower case of their own are
  \<^verbatim>\<open>A\<close> to \<^verbatim>\<open>Z\<close> (65 to 90) and the capital letters of Latin-1 (192 to 222 without the
  multiplication sign 215); the lower case form is 32 further in each case.\<close>

definition lower_char :: "char \<Rightarrow> char" where
  "lower_char c =
     (let n = (of_char c :: nat) in
      if (65 \<le> n \<and> n \<le> 90) \<or> (192 \<le> n \<and> n \<le> 214) \<or> (216 \<le> n \<and> n \<le> 222)
      then char_of (n + 32) else c)"

definition lower :: "string \<Rightarrow> string" where
  "lower s = map lower_char s"

text \<open>\<^verbatim>\<open>s.split(sep)\<close> for a separator that is not empty: \<open>k\<close> counts the characters of a
  separator just found that are still to be skipped, \<open>acc\<close> is the piece being read,
  reversed.\<close>

fun split_aux :: "string \<Rightarrow> nat \<Rightarrow> string \<Rightarrow> string \<Rightarrow> string list" where
  "split_aux sep k acc [] = [rev acc]"
| "split_aux sep (Suc k) acc (c # cs) = split_aux sep k acc cs"
| "split_aux sep 0 acc (c # cs) =
     (if starts_with (c # cs) sep then rev acc # split_aux sep (length sep - 1) [] cs
      else split_aux sep 0 (c # acc) cs)"

definition py_split :: "string \<Rightarrow> string \<Rightarrow> string list" where
  "py_split s sep = split_aux sep 0 [] s"

definition nth_piece :: "string list \<Rightarrow> nat \<Rightarrow> exn + string" where
  "nth_piece xs i = (if i < length xs then Inr (xs ! i) else Inl IndexError)"

text \<open>\<^verbatim>\<open>str.strip()\<close> removes the white space at both ends. Below 256 the code points for
  which \<^verbatim>\<open>str.isspace\<close> holds are the space, 9 to 13, 28 to 31, the next line control
  U+0085 and the no-break space U+00A0.\<close>

definition is_space :: "char \<Rightarrow> bool" where
  "is_space c = (c \<in> set [CHR '' '', CHR 0x09, CHR 0x0A, CHR 0x0B, CHR 0x0C, CHR 0x0D,
                          CHR 0x1C, CHR 0x1D, CHR 0x1E, CHR 0x1F, CHR 0x85, CHR 0xA0])"

definition strip :: "string \<Rightarrow> string" where
  "strip s = rev (dropWhile is_space (rev (dropWhile is_space s)))"

definition loads :: "env \<Rightarrow> string \<Rightarrow> exn + pyval" where
  "loads E s = (case json_loads E s of None \<Rightarrow> Inl JSONDecodeError | Some v \<Rightarrow> Inr v)"

section \<open>Double precision arithmetic\<close>

text \<open>
  \<^verbatim>\<open>int((c / 1000.0) * self.screen_width)\<close> is computed in IEEE 754 binary64: every
  operation returns the exact result rounded to 53 significant bits, ties to even.
  \<open>fl\<close> is that rounding, with an unbounded exponent (it is the rounding of binary64
  on every result whose magnitude is zero or within the normal range, below
  \<open>2 ^ 1024\<close> and at least \<open>2 ^ - 1022\<close>).
\<close>

definition pow2 :: "int \<Rightarrow> rat" where
  "pow2 e = (if 0 \<le> e then 2 ^ nat e else 1 / 2 ^ nat (- e))"

definition round_half_even :: "rat \<Rightarrow> int" where
  "round_half_even q =
     (let f = \<lfloor>q\<rfloor>; r = q - of_int f
      in if r < 1 / 2 then f
         else if 1 / 2 < r then f + 1
         else if even f then f else f + 1)"

text \<open>For \<open>0 < q\<close>, the \<open>k\<close> with \<open>2 ^ k \<le> q < 2 ^ (k + 1)\<close>.\<close>

definition ilog2 :: "rat \<Rightarrow> int" where
  "ilog2 q = (if 1 \<le> q then bitlen \<lfloor>q\<rfloor> - 1 else - bitlen (\<lceil>1 / q\<rceil> - 1))"

definition fl_pos :: "rat \<Rightarrow> rat" where
  "fl_pos q = (let e = ilog2 q - 52 in of_int (round_half_even (q / pow2 e)) * pow2 e)"

definition fl :: "rat \<Rightarrow> rat" where
  "fl q = (if q = 0 then 0 else if 0 < q then fl_pos q else - fl_pos (- q))"

text \<open>\<^verbatim>\<open>int(q)\<close> on a float: towards zero.\<close>

definition py_int :: "rat \<Rightarrow> int" where
  "py_int q = (if 0 \<le> q then \<lfloor>q\<rfloor> else \<lceil>q\<rceil>)"

text \<open>The operand of a float operation: an \<^verbatim>\<open>int\<close> is converted (rounded, and too large
  an \<^verbatim>\<open>int\<close> raises), a \<^verbatim>\<open>bool\<close> is an \<^verbatim>\<open>int\<close>, anything else is a type error.\<close>

fun to_float :: "pyval \<Rightarrow> exn + rat" where
  "to_float (PInt i) =
     (if \<bar>fl (of_int i)\<bar> < 2 ^ 1024 then Inr (fl (of_int i)) else Inl OverflowError)"
| "to_float (PBool b) = Inr (if b then 1 else 0)"
| "to_float (PFloat q) = Inr q"
| "to_float _ = Inl TypeError"

text \<open>\<^verbatim>\<open>int((c / 1000.0) * extent)\<close>, the expression of \<^verbatim>\<open>click_normalized\<close> and of the
  \<^verbatim>\<open>left_click_drag\<close> and \<^verbatim>\<open>mouse_move\<close> branches.\<close>

definition to_pixel :: "pyval \<Rightarrow> int \<Rightarrow> exn + int" where
  "to_pixel c extent =
     bindE (to_float c) (\<lambda>f.
     bindE (to_float (PInt extent)) (\<lambda>d.
     Inr (py_int (fl (fl (f / 1000) * d)))))"

section \<open>The action executor\<close>

text \<open>\<^verbatim>\<open>ActionExecutor.click\<close>: the call to pyautogui is inside
  \<^verbatim>\<open>try ... except Exception\<close>, which reports \<open>False\<close>.\<close>

definition click :: "env \<Rightarrow> int \<Rightarrow> int \<Rightarrow> string \<Rightarrow> int \<Rightarrow> bool prog" where
  "click E x y button clicks =
     catchM (bindM (call E (Click x y button clicks)) (\<lambda>_. returnM True))
       is_Exception (\<lambda>e. returnM False)"

text \<open>\<^verbatim>\<open>ActionExecutor.click_normalized\<close>.\<close>

definition click_normalized ::
  "env \<Rightarrow> config \<Rightarrow> pyval \<Rightarrow> pyval \<Rightarrow> string \<Rightarrow> int \<Rightarrow> bool prog" where
  "click_normalized E C x_norm y_norm button clicks =
     bindM (liftE (to_pixel x_norm (screen_width C))) (\<lambda>x.
     bindM (liftE (to_pixel y_norm (screen_height C))) (\<lambda>y.
     click E x y button clicks))"

text \<open>\<^verbatim>\<open>ActionExecutor.move_mouse\<close>.\<close>

definition move_mouse :: "env \<Rightarrow> int \<Rightarrow> int \<Rightarrow> rat \<Rightarrow> bool prog" where
  "move_mouse E x y duration =
     catchM (bindM (call E (MoveTo x y duration)) (\<lambda>_. returnM True))
       is_Exception (\<lambda>e. returnM False)"

text \<open>\<^verbatim>\<open>ActionExecutor.type_text\<close>: the log line slices \<^verbatim>\<open>text[:50]\<close> inside the
  \<^verbatim>\<open>try\<close>, which raises on a value that has no slices.\<close>

fun sliceable :: "pyval \<Rightarrow> bool" where
  "sliceable (PStr s) = True"
| "sliceable (PList xs) = True"
| "sliceable _ = False"

definition type_text :: "env \<Rightarrow> pyval \<Rightarrow> rat \<Rightarrow> bool prog" where
  "type_text E text interval =
     catchM (if sliceable text
             then bindM (call E (Write text interval)) (\<lambda>_. returnM True)
             else raiseM TypeError)
       is_Exception (\<lambda>e. returnM False)"

text \<open>\<^verbatim>\<open>ActionExecutor.press_key\<close>.\<close>

definition press_key :: "env \<Rightarrow> pyval \<Rightarrow> bool prog" where
  "press_key E key =
     catchM (bindM (call E (Press key)) (\<lambda>_. returnM True))
       is_Exception (\<lambda>e. returnM False)"

text \<open>\<^verbatim>\<open>ActionExecutor.scroll\<close>.\<close>

definition scroll :: "env \<Rightarrow> pyval \<Rightarrow> bool prog" where
  "scroll E clicks =
     catchM (bindM (call E (Scroll clicks)) (\<lambda>_. returnM True))
       is_Exception (\<lambda>e. returnM False)"

text \<open>\<^verbatim>\<open>ActionExecutor.drag\<close>.\<close>

definition drag :: "env \<Rightarrow> int \<Rightarrow> int \<Rightarrow> rat \<Rightarrow> bool prog" where
  "drag E x y duration =
     catchM (bindM (call E (Drag x y duration)) (\<lambda>_. returnM True))
       is_Exception (\<lambda>e. returnM False)"

text \<open>\<^verbatim>\<open>ActionExecutor.wait\<close>: no \<^verbatim>\<open>try\<close> here.\<close>

definition wait :: "env \<Rightarrow> rat \<Rightarrow> bool prog" where
  "wait E seconds = bindM (call E (Sleep seconds)) (\<lambda>_. returnM True)"

text \<open>\<^verbatim>\<open>ActionExecutor._execute_computer_action\<close>: the dispatch on
  \<^verbatim>\<open>args.get('action')\<close>, branch by branch in the order of the source.\<close>

definition default_coordinate :: pyval where
  "default_coordinate = PList [PInt 500, PInt 500]"

definition execute_computer_action :: "env \<Rightarrow> config \<Rightarrow> pyval \<Rightarrow> bool prog" where
  "execute_computer_action E C args =
     bindM (liftE (py_get args ''action'' PNone)) (\<lambda>action_type.
     if action_type = PStr ''left_click'' then
       bindM (liftE (py_get args ''coordinate'' default_coordinate)) (\<lambda>coordinate.
       bindM (liftE (py_index coordinate 0)) (\<lambda>c0.
       bindM (liftE (py_index coordinate 1)) (\<lambda>c1.
       click_normalized E C c0 c1 ''left'' 1)))
     else if action_type = PStr ''left_click_drag'' then
       bindM (liftE (py_get args ''coordinate'' default_coordinate)) (\<lambda>coordinate.
       bindM (liftE (bindE (py_index coordinate 0) (\<lambda>c0. to_pixel c0 (screen_width C)))) (\<lambda>x.
       bindM (liftE (bindE (py_index coordinate 1) (\<lambda>c1. to_pixel c1 (screen_height C)))) (\<lambda>y.
       drag E x y (1 / 2))))
     else if action_type = PStr ''right_click'' then
       bindM (liftE (py_get args ''coordinate'' default_coordinate)) (\<lambda>coordinate.
       bindM (liftE (py_index coordinate 0)) (\<lambda>c0.
       bindM (liftE (py_index coordinate 1)) (\<lambda>c1.
       click_normalized E C c0 c1 ''right'' 1)))
     else if action_type = PStr ''double_click'' then
       bindM (liftE (py_get args ''coordinate'' default_coordinate)) (\<lambda>coordinate.
       bindM (liftE (py_index coordinate 0)) (\<lambda>c0.
       bindM (liftE (py_index coordinate 1)) (\<lambda>c1.
       click_normalized E C c0 c1 ''left'' 2)))
     else if action_type = PStr ''middle_click'' then
       bindM (liftE (py_get args ''coordinate'' default_coordinate)) (\<lambda>coordinate.
       bindM (liftE (py_index coordinate 0)) (\<lambda>c0.
       bindM (liftE (py_index coordinate 1)) (\<lambda>c1.
       click_normalized E C c0 c1 ''middle'' 1)))
     else if action_type = PStr ''mouse_move'' then
       bindM (liftE (py_get args ''coordinate'' default_coordinate)) (\<lambda>coordinate.
       bindM (liftE (bindE (py_index coordinate 0) (\<lambda>c0. to_pixel c0 (screen_width C)))) (\<lambda>x.
       bindM (liftE (bindE (py_index coordinate 1) (\<lambda>c1. to_pixel c1 (screen_height C)))) (\<lambda>y.
       move_mouse E x y (1 / 2))))
     else if action_type = PStr ''type'' then
       bindM (liftE (py_get args ''text'' (PStr []))) (\<lambda>text. type_text E text (1 / 20))
     else if action_type = PStr ''key'' then
       bindM (liftE (py_get args ''text'' (PStr ''enter''))) (\<lambda>key. press_key E key)
     else if action_type = PStr ''scroll'' then
       bindM (liftE (py_get args ''scroll_amount'' (PInt 0))) (\<lambda>scroll_amount.
       scroll E scroll_amount)
     else if action_type = PStr ''screenshot'' then returnM True
     else if action_type = PStr ''cursor_position'' then
       bindM (call E Position) (\<lambda>_. returnM True)
     else returnM False)"

text \<open>\<^verbatim>\<open>ActionExecutor.execute_computer_use_action\<close>: \<^verbatim>\<open>a or b\<close> is \<open>a\<close> when \<open>a\<close>
  is true and \<open>b\<close> otherwise; the whole body is inside \<^verbatim>\<open>try ... except Exception\<close>.\<close>

definition execute_computer_use_action :: "env \<Rightarrow> config \<Rightarrow> pyval \<Rightarrow> bool prog" where
  "execute_computer_use_action E C action =
     catchM
       (bindM (liftE (bindE (py_get action ''name'' PNone) (\<lambda>n.
                 if truthy n then Inr n
                 else bindE (py_get action ''function'' (PDict [])) (\<lambda>f.
                      py_get f ''name'' PNone)))) (\<lambda>action_name.
        bindM (liftE (bindE (py_get action ''arguments'' PNone) (\<lambda>a.
                 if truthy a then Inr a
                 else bindE (py_get action ''function'' (PDict [])) (\<lambda>f.
                      py_get f ''arguments'' (PDict []))))) (\<lambda>arguments.
        bindM (liftE (case arguments of PStr s \<Rightarrow> loads E s | _ \<Rightarrow> Inr arguments))
          (\<lambda>arguments.
        if action_name \<in> set [PStr ''computer'', PStr ''computer_use'']
        then execute_computer_action E C arguments
        else returnM False))))
       is_Exception (\<lambda>e. returnM False)"

section \<open>The model client\<close>

text \<open>\<^verbatim>\<open>OllamaVisionClient.extract_tool_calls\<close>.\<close>

definition extract_tool_calls :: "response \<Rightarrow> pyval list" where
  "extract_tool_calls r =
     (case msg r of
        None \<Rightarrow> []
      | Some m \<Rightarrow> (case tool_calls m of None \<Rightarrow> [] | Some tcs \<Rightarrow> tcs))"

text \<open>The body of the \<^verbatim>\<open>try\<close> of \<^verbatim>\<open>parse_computer_use_action\<close>:
  \<^verbatim>\<open>json.loads(content.split('<tool_call>')[1].split('</tool_call>')[0].strip())\<close>.\<close>

definition decode_payload :: "env \<Rightarrow> string \<Rightarrow> exn + pyval" where
  "decode_payload E c =
     bindE (nth_piece (py_split c ''<tool_call>'') 1) (\<lambda>a.
     bindE (nth_piece (py_split a ''</tool_call>'') 0) (\<lambda>b.
     loads E (strip b)))"

text \<open>\<^verbatim>\<open>OllamaVisionClient.parse_computer_use_action\<close>; Python's \<^verbatim>\<open>None\<close> is \<open>PNone\<close>.
  The \<^verbatim>\<open>except\<close> clause names \<^verbatim>\<open>json.JSONDecodeError\<close> and \<^verbatim>\<open>IndexError\<close>, prints, and
  falls through to \<^verbatim>\<open>return None\<close>.\<close>

definition parse_computer_use_action :: "env \<Rightarrow> response \<Rightarrow> exn + pyval" where
  "parse_computer_use_action E r =
     (case extract_tool_calls r of
        t # ts \<Rightarrow> Inr t
      | [] \<Rightarrow>
         (case msg r of
            None \<Rightarrow> Inr PNone
          | Some m \<Rightarrow>
             (case content m of
                None \<Rightarrow> Inr PNone
              | Some c \<Rightarrow>
                 if contains c ''<tool_call>'' \<and> contains c ''</tool_call>'' then
                   (case decode_payload E c of
                      Inr action \<Rightarrow> Inr action
                    | Inl e \<Rightarrow>
                       if e = JSONDecodeError \<or> e = IndexError then Inr PNone else Inl e)
                 else Inr PNone)))"

section \<open>The loop controller\<close>

text \<open>The two user prompts of \<^verbatim>\<open>_think_and_decide\<close>.\<close>

definition first_prompt :: "string \<Rightarrow> string" where
  "first_prompt task =
     ''Task: '' @ task @ [CHR 0x0A, CHR 0x0A] @
     ''This is the current state of the desktop. What should I do first to accomplish this task?''"

definition next_prompt :: "string \<Rightarrow> string" where
  "next_prompt task =
     ''Task: '' @ task @ [CHR 0x0A, CHR 0x0A] @
     ''This is the current state after the previous action. What should I do next?''"

text \<open>\<^verbatim>\<open>SeeThinkActAgent._think_and_decide\<close>: the system prompt and the tool schema are
  the same in every call; \<^verbatim>\<open>except Exception\<close> logs and raises again.\<close>

definition think_and_decide :: "env \<Rightarrow> string \<Rightarrow> response prog" where
  "think_and_decide E task =
     (\<lambda>s. catchM
            (chat_call E (if iteration_count s = 0 then first_prompt task
                          else next_prompt task))
            is_Exception (\<lambda>e. raiseM e) s)"

text \<open>\<^verbatim>\<open>SeeThinkActAgent._capture_current_state\<close>.\<close>

definition capture_current_state :: "env \<Rightarrow> config \<Rightarrow> unit prog" where
  "capture_current_state E C =
     bindM (call E CaptureScreen) (\<lambda>_.
     if save_screenshots C then call E SaveScreenshot else returnM ())"

text \<open>Lines 221 to 232 of \<^verbatim>\<open>_execute_action\<close>, "Extract action details": the name and
  the arguments of the action.\<close>

definition extract_action_details :: "env \<Rightarrow> pyval \<Rightarrow> exn + pyval \<times> pyval" where
  "extract_action_details E action =
     bindE (py_in ''function'' action) (\<lambda>has_function.
     if has_function then
       bindE (py_item action ''function'') (\<lambda>action_details.
       bindE (py_get action_details ''name'' PNone) (\<lambda>action_name.
       bindE (py_get action_details ''arguments'' PNone) (\<lambda>a.
       case a of
         PStr s \<Rightarrow> bindE (loads E s) (\<lambda>arguments. Inr (action_name, arguments))
       | _ \<Rightarrow> bindE (py_get action_details ''arguments'' (PDict [])) (\<lambda>arguments.
              Inr (action_name, arguments)))))
     else
       bindE (py_get action ''arguments'' (PDict [])) (\<lambda>arguments.
       bindE (py_get action ''name'' (PStr ''computer'')) (\<lambda>action_name.
       Inr (action_name, arguments))))"

definition set_completed :: "pyval \<Rightarrow> unit prog" where
  "set_completed st = (\<lambda>s. (Inr (), s\<lparr>task_completed := True, task_status := st\<rparr>))"

text \<open>\<^verbatim>\<open>SeeThinkActAgent._execute_action\<close>.\<close>

definition execute_action :: "env \<Rightarrow> config \<Rightarrow> response \<Rightarrow> bool prog" where
  "execute_action E C r =
     bindM (liftE (parse_computer_use_action E r)) (\<lambda>action.
     if \<not> truthy action then
       (case msg r of
          None \<Rightarrow> returnM False
        | Some m \<Rightarrow>
           (case content m of
              None \<Rightarrow> returnM False
            | Some c \<Rightarrow>
               if contains (lower c) ''terminate'' \<or> contains (lower c) ''complete''
               then bindM (set_completed (PStr ''success'')) (\<lambda>_. returnM True)
               else returnM False))
     else
       bindM (liftE (extract_action_details E action)) (\<lambda>(action_name, arguments).
       bindM (liftE (py_get arguments ''action'' PNone)) (\<lambda>a.
       if a = PStr ''terminate'' then
         bindM (liftE (py_get arguments ''status'' (PStr ''success''))) (\<lambda>st.
         bindM (set_completed st) (\<lambda>_. returnM True))
       else if a = PStr ''answer'' then
         bindM (liftE (py_get arguments ''text'' (PStr []))) (\<lambda>answer_text. returnM True)
       else
         bindM (execute_computer_use_action E C
                  (PDict [(''name'', action_name), (''arguments'', arguments)])) (\<lambda>success.
         if success \<and> a \<noteq> PStr ''wait''
         then bindM (call E (Sleep 1)) (\<lambda>_. returnM success)
         else returnM success))))"

text \<open>The body of the \<^verbatim>\<open>while\<close> loop of \<^verbatim>\<open>run\<close>, after
  \<^verbatim>\<open>self.iteration_count += 1\<close>.\<close>

definition append_history :: "response \<Rightarrow> unit prog" where
  "append_history r =
     (\<lambda>s. (Inr (), s\<lparr>conversation_history :=
                        conversation_history s @ [(iteration_count s, r)]\<rparr>))"

definition iteration :: "env \<Rightarrow> config \<Rightarrow> string \<Rightarrow> unit prog" where
  "iteration E C task =
     bindM (capture_current_state E C) (\<lambda>screenshot.
     bindM (think_and_decide E task) (\<lambda>r.
     bindM (append_history r) (\<lambda>_.
     bindM (execute_action E C r) (\<lambda>success.
     call E (Sleep (1 / 2))))))"

text \<open>The \<^verbatim>\<open>while\<close> loop of \<^verbatim>\<open>run\<close>. It ends because the body leaves
  \<^verbatim>\<open>self.iteration_count\<close> as the increment set it (\<open>keeps_count\<close>, proved below for
  every statement of the body).\<close>

definition keeps_count :: "'a prog \<Rightarrow> bool" where
  "keeps_count m = (\<forall>s r s'. m s = (r, s') \<longrightarrow> iteration_count s' = iteration_count s)"

function loop :: "env \<Rightarrow> config \<Rightarrow> string \<Rightarrow> unit prog" where
  "loop E C task s =
     (if iteration_count s < max_iterations C \<and> \<not> task_completed s then
        (case iteration E C task (s\<lparr>iteration_count := iteration_count s + 1\<rparr>) of
           (Inl e, s') \<Rightarrow> (Inl e, s')
         | (Inr u, s') \<Rightarrow> loop E C task s')
      else (Inr (), s))"
  by pat_completeness auto

text \<open>The Run Result. The message is kept as the template and its parameter;
  \<^verbatim>\<open>elapsed_time\<close>, a difference of wall clock readings, is left out.\<close>

datatype run_message =
    TaskCompleted int
  | TaskTimeout int
  | TaskInterrupted
  | TaskError exn

record run_result =
  success :: bool
  status :: pyval
  message :: run_message
  iterations :: int

text \<open>Lines 274 to 278 of \<^verbatim>\<open>run\<close>, "Reset state".\<close>

definition reset :: "state \<Rightarrow> state" where
  "reset s = s\<lparr>iteration_count := 0, task_completed := False, task_status := PNone,
               conversation_history := []\<rparr>"

text \<open>Lines 310 to 338 of \<^verbatim>\<open>run\<close>, "Task completion": the result after the loop.\<close>

definition completion :: "config \<Rightarrow> run_result prog" where
  "completion C =
     (\<lambda>s. (Inr (if task_completed s
                 then \<lparr>success = (task_status s = PStr ''success''),
                       status = task_status s,
                       message = TaskCompleted (iteration_count s),
                       iterations = iteration_count s\<rparr>
                 else \<lparr>success = False,
                       status = PStr ''timeout'',
                       message = TaskTimeout (max_iterations C),
                       iterations = iteration_count s\<rparr>), s))"

text \<open>The \<^verbatim>\<open>try\<close> statement of \<^verbatim>\<open>run\<close> with its two \<^verbatim>\<open>except\<close> clauses,
  \<^verbatim>\<open>KeyboardInterrupt\<close> first, then \<^verbatim>\<open>Exception\<close>.\<close>

definition run_try :: "env \<Rightarrow> config \<Rightarrow> string \<Rightarrow> state \<Rightarrow> run_result \<times> state" where
  "run_try E C task s =
     (case bindM (loop E C task) (\<lambda>_. completion C) s of
        (Inr result, s') \<Rightarrow> (result, s')
      | (Inl e, s') \<Rightarrow>
          if e = KeyboardInterrupt
          then (\<lparr>success = False, status = PStr ''interrupted'',
                 message = TaskInterrupted, iterations = iteration_count s'\<rparr>, s')
          else (\<lparr>success = False, status = PStr ''error'',
                 message = TaskError e, iterations = iteration_count s'\<rparr>, s'))"

text \<open>\<^verbatim>\<open>SeeThinkActAgent.run\<close>.\<close>

definition run :: "env \<Rightarrow> config \<Rightarrow> string \<Rightarrow> state \<Rightarrow> run_result \<times> state" where
  "run E C task s = run_try E C task (reset s)"

text \<open>A new agent, as \<^verbatim>\<open>__init__\<close> leaves it.\<close>

definition init_state :: state where
  "init_state = \<lparr>iteration_count = 0, task_completed = False, task_status = PNone,
                  conversation_history = [], trace = []\<rparr>"

section \<open>Termination of the loop\<close>

lemma keeps_returnM: "keeps_count (returnM x)"
  by (simp add: keeps_count_def returnM_def)

lemma keeps_raiseM: "keeps_count (raiseM e)"
  by (simp add: keeps_count_def raiseM_def)

lemma keeps_liftE: "keeps_count (liftE r)"
  by (simp add: keeps_count_def liftE_def)

lemma keeps_bindM:
  "keeps_count m \<Longrightarrow> (\<And>x. keeps_count (f x)) \<Longrightarrow> keeps_count (bindM m f)"
  unfolding keeps_count_def bindM_def
  by (auto split: prod.splits sum.splits)

lemma keeps_catchM:
  "keeps_count m \<Longrightarrow> (\<And>e. keeps_count (h e)) \<Longrightarrow> keeps_count (catchM m c h)"
  unfolding keeps_count_def catchM_def
  by (auto split: prod.splits sum.splits if_splits)

lemma keeps_call: "keeps_count (call E ev)"
  by (auto simp: keeps_count_def call_def Let_def split: option.splits)

lemma keeps_chat_call: "keeps_count (chat_call E p)"
  by (auto simp: keeps_count_def chat_call_def)

lemma keeps_if: "keeps_count m \<Longrightarrow> keeps_count n \<Longrightarrow> keeps_count (if b then m else n)"
  by simp

lemma keeps_set_completed: "keeps_count (set_completed st)"
  by (simp add: keeps_count_def set_completed_def)

lemma keeps_append_history: "keeps_count (append_history r)"
  by (auto simp: keeps_count_def append_history_def)

lemmas keeps_intros =
  keeps_returnM keeps_raiseM keeps_liftE keeps_bindM keeps_catchM keeps_call
  keeps_chat_call keeps_if keeps_set_completed keeps_append_history

lemma keeps_click_normalized: "keeps_count (click_normalized E C x y b c)"
  unfolding click_normalized_def click_def by (intro keeps_intros)

lemma keeps_execute_computer_action: "keeps_count (execute_computer_action E C args)"
  unfolding execute_computer_action_def move_mouse_def type_text_def press_key_def
    scroll_def drag_def
  by (intro keeps_intros keeps_click_normalized)

lemma keeps_execute_computer_use_action:
  "keeps_count (execute_computer_use_action E C a)"
  unfolding execute_computer_use_action_def
  by (intro keeps_intros keeps_execute_computer_action)

lemma keeps_think_and_decide: "keeps_count (think_and_decide E task)"
proof -
  have "keeps_count (catchM (chat_call E p) is_Exception (\<lambda>e. raiseM e))" for p
    by (intro keeps_intros)
  then show ?thesis
    unfolding keeps_count_def think_and_decide_def by blast
qed

lemma keeps_execute_action: "keeps_count (execute_action E C r)"
  unfolding execute_action_def
  by (intro keeps_intros keeps_execute_computer_use_action)
    (auto intro!: keeps_intros keeps_execute_computer_use_action
          split: option.splits prod.splits)

lemma keeps_iteration: "keeps_count (iteration E C task)"
  unfolding iteration_def capture_current_state_def
  by (intro keeps_intros keeps_think_and_decide keeps_execute_action)

lemma iteration_count_iteration:
  "iteration E C task s = (r, s') \<Longrightarrow> iteration_count s' = iteration_count s"
  using keeps_iteration [of E C task] unfolding keeps_count_def by blast

termination loop
  apply (relation "measure (\<lambda>(E, C, task, s). nat (max_iterations C - iteration_count s))")
   apply simp
  apply (auto dest: iteration_count_iteration [OF sym])
  done

declare loop.simps [simp del]

section \<open>The claims\<close>

subsection \<open>The Run Result\<close>

text \<open>
  C10. In every Run Result that \<^verbatim>\<open>run\<close> returns, whatever path produced it (completion,
  timeout, interruption or error), the \<open>success\<close> field is true exactly when the
  \<open>status\<close> field is the string \<^verbatim>\<open>"success"\<close>.
\<close>

theorem run_success_iff_status:
  "success (fst (run E C task s)) = (status (fst (run E C task s)) = PStr ''success'')"
  unfolding run_def run_try_def bindM_def completion_def
  by (simp split: prod.splits sum.splits)

subsection \<open>The dispatch of the executor\<close>

text \<open>
  C4. A \<^verbatim>\<open>wait\<close> action handed to the dispatch of the executor should block for the
  duration and report success. The dispatch has no branch for \<^verbatim>\<open>wait\<close>: the descriptor
  \<^verbatim>\<open>{"action": "wait", "time": 2}\<close> reaches the last \<^verbatim>\<open>else\<close>, which reports failure, and
  no call is made (the state, with its trace, is unchanged), although
  \<^verbatim>\<open>ActionExecutor.wait\<close> exists and would sleep and return \<open>True\<close>.
\<close>

theorem wait_dispatch_reports_failure:
  "execute_computer_action E C (PDict [(''action'', PStr ''wait''), (''time'', PInt 2)]) s
     = (Inr False, s)
   \<and> wait E 2 s = (case os_call E (iteration_count s) (Sleep 2) of
                     None \<Rightarrow> (Inr True, s\<lparr>trace := trace s @ [(iteration_count s, Sleep 2)]\<rparr>)
                   | Some e \<Rightarrow> (Inl e, s\<lparr>trace := trace s @ [(iteration_count s, Sleep 2)]\<rparr>))"
  by (simp add: execute_computer_action_def wait_def call_def bindM_def liftE_def returnM_def
        split: option.splits)

subsection \<open>Rescaling of the coordinates\<close>

text \<open>The actions that carry a coordinate, the call each one makes once the pixel is
  known, and the pixel of a call.\<close>

definition pointer_actions :: "string list" where
  "pointer_actions = [''left_click'', ''left_click_drag'', ''right_click'', ''double_click'',
                      ''middle_click'', ''mouse_move'']"

definition pointer_event :: "string \<Rightarrow> int \<Rightarrow> int \<Rightarrow> event" where
  "pointer_event a x y =
     (if a = ''left_click'' then Click x y ''left'' 1
      else if a = ''left_click_drag'' then Drag x y (1 / 2)
      else if a = ''right_click'' then Click x y ''right'' 1
      else if a = ''double_click'' then Click x y ''left'' 2
      else if a = ''middle_click'' then Click x y ''middle'' 1
      else MoveTo x y (1 / 2))"

fun event_xy :: "event \<Rightarrow> (int \<times> int) option" where
  "event_xy (Click x y button clicks) = Some (x, y)"
| "event_xy (MoveTo x y duration) = Some (x, y)"
| "event_xy (Drag x y duration) = Some (x, y)"
| "event_xy _ = None"

text \<open>A call to pyautogui inside \<^verbatim>\<open>try ... except Exception\<close>, as \<^verbatim>\<open>click\<close>,
  \<^verbatim>\<open>move_mouse\<close> and \<^verbatim>\<open>drag\<close> make it.\<close>

definition pointer_call :: "env \<Rightarrow> event \<Rightarrow> bool prog" where
  "pointer_call E ev =
     catchM (bindM (call E ev) (\<lambda>_. returnM True)) is_Exception (\<lambda>e. returnM False)"

text \<open>Two worlds to run the code in: one where every call returns and the model says
  nothing, and a screen of a given size.\<close>

definition quiet_env :: env where
  "quiet_env = \<lparr>os_call = (\<lambda>k ev. None), chat = (\<lambda>k p. Inr \<lparr>msg = None\<rparr>),
                 json_loads = (\<lambda>s. None)\<rparr>"

definition screen :: "int \<Rightarrow> int \<Rightarrow> config" where
  "screen w h = \<lparr>max_iterations = 50, save_screenshots = False,
                  screen_width = w, screen_height = h\<rparr>"

lemma pointer_call_eq:
  "pointer_call E ev s =
     (case os_call E (iteration_count s) ev of
        None \<Rightarrow> (Inr True, s\<lparr>trace := trace s @ [(iteration_count s, ev)]\<rparr>)
      | Some e \<Rightarrow> (if is_Exception e then Inr False else Inl e,
                    s\<lparr>trace := trace s @ [(iteration_count s, ev)]\<rparr>))"
  unfolding pointer_call_def catchM_def bindM_def call_def returnM_def Let_def
  by (cases "os_call E (iteration_count s) ev") simp_all

lemma pointer_call_trace:
  "trace (snd (pointer_call E ev s)) = trace s @ [(iteration_count s, ev)]"
  unfolding pointer_call_eq by (cases "os_call E (iteration_count s) ev") simp_all

lemma pointer_call_ok:
  "os_call E (iteration_count s) ev = None \<Longrightarrow> fst (pointer_call E ev s) = Inr True"
  unfolding pointer_call_eq by simp

lemma event_xy_pointer_event: "event_xy (pointer_event a x y) = Some (x, y)"
  by (simp add: pointer_event_def)

lemma pointer_dispatch:
  assumes a: "a \<in> set pointer_actions"
    and act: "map_of d ''action'' = Some (PStr a)"
    and co: "py_get (PDict d) ''coordinate'' default_coordinate = Inr (PList [cx, cy])"
    and px: "to_pixel cx (screen_width C) = Inr px"
    and py: "to_pixel cy (screen_height C) = Inr py"
  shows "execute_computer_action E C (PDict d) s = pointer_call E (pointer_event a px py) s"
proof -
  from a have "a = ''left_click'' \<or> a = ''left_click_drag'' \<or> a = ''right_click''
      \<or> a = ''double_click'' \<or> a = ''middle_click'' \<or> a = ''mouse_move''"
    by (simp add: pointer_actions_def)
  then show ?thesis
  proof (elim disjE)
    assume "a = ''left_click''"
    with act co px py show ?thesis
      by (simp add: execute_computer_action_def click_normalized_def click_def pointer_call_def
          pointer_event_def bindM_def liftE_def bindE_def)
  next
    assume "a = ''left_click_drag''"
    with act co px py show ?thesis
      by (simp add: execute_computer_action_def drag_def pointer_call_def
          pointer_event_def bindM_def liftE_def bindE_def)
  next
    assume "a = ''right_click''"
    with act co px py show ?thesis
      by (simp add: execute_computer_action_def click_normalized_def click_def pointer_call_def
          pointer_event_def bindM_def liftE_def bindE_def)
  next
    assume "a = ''double_click''"
    with act co px py show ?thesis
      by (simp add: execute_computer_action_def click_normalized_def click_def pointer_call_def
          pointer_event_def bindM_def liftE_def bindE_def)
  next
    assume "a = ''middle_click''"
    with act co px py show ?thesis
      by (simp add: execute_computer_action_def click_normalized_def click_def pointer_call_def
          pointer_event_def bindM_def liftE_def bindE_def)
  next
    assume "a = ''mouse_move''"
    with act co px py show ?thesis
      by (simp add: execute_computer_action_def move_mouse_def pointer_call_def
          pointer_event_def bindM_def liftE_def bindE_def)
  qed
qed

text \<open>Rounding to a double keeps a value that is not negative between zero and any
  integer below \<open>2 ^ 53\<close> that bounds it.\<close>

lemma pow2_pos: "0 < pow2 e"
  by (simp add: pow2_def)

lemma round_half_even_nonneg: "0 \<le> q \<Longrightarrow> 0 \<le> round_half_even q"
  by (auto simp: round_half_even_def Let_def)

lemma round_half_even_le:
  assumes le: "q \<le> of_int k"
  shows "round_half_even q \<le> k"
proof -
  from le have f: "\<lfloor>q\<rfloor> \<le> k" by (simp add: floor_le_iff)
  show ?thesis
  proof (cases "q = of_int \<lfloor>q\<rfloor>")
    case True
    then have "q - of_int \<lfloor>q\<rfloor> = 0" by simp
    then show ?thesis using f by (simp add: round_half_even_def Let_def)
  next
    case False
    have "of_int \<lfloor>q\<rfloor> \<le> q" by simp
    with False have "of_int \<lfloor>q\<rfloor> < q" by linarith
    with le have "(of_int \<lfloor>q\<rfloor> :: rat) < of_int k" by linarith
    then have "\<lfloor>q\<rfloor> < k" by simp
    then show ?thesis by (simp add: round_half_even_def Let_def)
  qed
qed

lemma fl_nonneg: "0 \<le> q \<Longrightarrow> 0 \<le> fl q"
  by (auto simp: fl_def fl_pos_def Let_def pow2_pos less_imp_le round_half_even_nonneg
      intro!: mult_nonneg_nonneg divide_nonneg_nonneg)

lemma ilog2_le_52:
  assumes "0 < q" "q \<le> of_int n" "n < 2 ^ 53"
  shows "ilog2 q \<le> 52"
proof (cases "1 \<le> q")
  case True
  have "\<lfloor>q\<rfloor> \<le> n" using assms(2) by (simp add: floor_le_iff)
  with assms(3) have "\<lfloor>q\<rfloor> < 2 ^ 53" by linarith
  then have "bitlen \<lfloor>q\<rfloor> \<le> int 53" by (subst bitlen_le_iff_power) simp
  with True show ?thesis by (simp add: ilog2_def)
next
  case False
  have "0 \<le> bitlen (\<lceil>1 / q\<rceil> - 1)" by (rule bitlen_nonneg)
  with False show ?thesis by (simp add: ilog2_def)
qed

lemma fl_le_int:
  assumes "0 \<le> q" "q \<le> of_int n" "n < 2 ^ 53"
  shows "fl q \<le> of_int n"
proof (cases "q = 0")
  case True
  with assms show ?thesis by (simp add: fl_def)
next
  case False
  with assms have pos: "0 < q" by simp
  define k where "k = nat (52 - ilog2 q)"
  have e: "ilog2 q - 52 \<le> 0" using ilog2_le_52 [OF pos assms(2,3)] by simp
  then have p: "pow2 (ilog2 q - 52) = 1 / 2 ^ k"
    by (auto simp: pow2_def k_def)
  have "q / pow2 (ilog2 q - 52) = q * 2 ^ k" by (simp add: p)
  also have "\<dots> \<le> of_int n * 2 ^ k" using assms(2) by simp
  also have "\<dots> = of_int (n * 2 ^ k)" by simp
  finally have "round_half_even (q / pow2 (ilog2 q - 52)) \<le> n * 2 ^ k"
    by (rule round_half_even_le)
  then have "(of_int (round_half_even (q / pow2 (ilog2 q - 52))) :: rat) \<le> of_int (n * 2 ^ k)"
    by (simp only: of_int_le_iff)
  then have "of_int (round_half_even (q / pow2 (ilog2 q - 52))) * (1 / 2 ^ k) \<le> (of_int n :: rat)"
    by (simp add: field_simps)
  with pos show ?thesis by (simp add: fl_def fl_pos_def Let_def p)
qed

lemma py_int_bounds: "0 \<le> q \<Longrightarrow> q \<le> of_int n \<Longrightarrow> 0 \<le> py_int q \<and> py_int q \<le> n"
  by (simp add: py_int_def floor_le_iff)

lemma to_float_int:
  assumes "0 \<le> n" "n < 2 ^ 53"
  shows "to_float (PInt n) = Inr (fl (of_int n)) \<and> 0 \<le> fl (of_int n)
         \<and> fl (of_int n) \<le> of_int n"
proof -
  have a: "0 \<le> fl (of_int n)" using assms(1) by (simp add: fl_nonneg)
  have b: "fl (of_int n) \<le> of_int n" using assms by (intro fl_le_int) simp_all
  have "(of_int n :: rat) < of_int (2 ^ 53)" using assms(2) by (simp only: of_int_less_iff)
  also have "\<dots> < 2 ^ 1024" by simp
  finally have "\<bar>fl (of_int n)\<bar> < 2 ^ 1024" using a b by simp
  with a b show ?thesis by simp
qed

lemma to_pixel_bounds:
  assumes x: "0 \<le> x" "x \<le> 1000" and w: "0 \<le> w" "w < 2 ^ 53"
  shows "to_pixel (PInt x) w = Inr (py_int (fl (fl (fl (of_int x) / 1000) * fl (of_int w))))
         \<and> 0 \<le> py_int (fl (fl (fl (of_int x) / 1000) * fl (of_int w)))
         \<and> py_int (fl (fl (fl (of_int x) / 1000) * fl (of_int w))) \<le> w"
proof -
  define f :: rat where "f = fl (of_int x)"
  define d :: rat where "d = fl (of_int w)"
  from x have "x < 2 ^ 53" by simp
  note tx = to_float_int [OF x(1) this] and tw = to_float_int [OF w]
  have f: "to_float (PInt x) = Inr f" "0 \<le> f" "f \<le> of_int x"
    unfolding f_def using tx by blast+
  have d: "to_float (PInt w) = Inr d" "0 \<le> d" "d \<le> of_int w"
    unfolding d_def using tw by blast+
  from f x have f1: "f / 1000 \<le> of_int 1" "0 \<le> f / 1000" by simp_all
  have a0: "0 \<le> fl (f / 1000)" using f1 by (simp add: fl_nonneg)
  have a1: "fl (f / 1000) \<le> of_int 1" using f1 by (intro fl_le_int) simp_all
  have "fl (f / 1000) * d \<le> 1 * d" using a1 d(2) by (intro mult_right_mono) simp_all
  with d(3) have m1: "fl (f / 1000) * d \<le> of_int w" by simp
  have m0: "0 \<le> fl (f / 1000) * d" using a0 d(2) by simp
  have r0: "0 \<le> fl (fl (f / 1000) * d)" using m0 by (rule fl_nonneg)
  have r1: "fl (fl (f / 1000) * d) \<le> of_int w" using m0 m1 w(2) by (rule fl_le_int)
  from py_int_bounds [OF r0 r1] f(1) d(1) show ?thesis
    unfolding f_def [symmetric] d_def [symmetric]
    by (simp add: to_pixel_def bindE_def del: to_float.simps)
qed

text \<open>
  C1, as the code has it. For a click, move or drag action with the coordinate \<open>[x, y]\<close>,
  \<open>0 \<le> x, y \<le> 1000\<close>, on a screen of \<open>W\<close> by \<open>H\<close> pixels (each below \<open>2 ^ 53\<close>), the dispatch
  makes one call to pyautogui. Its pixel is
  \<^verbatim>\<open>(int((x / 1000.0) * W), int((y / 1000.0) * H))\<close>, the double precision product cut
  towards zero (not rounded to the nearest integer), and it lies within
  \<open>[0, W] \<times> [0, H]\<close>.
\<close>

theorem rescaled_pixel_truncated_in_screen:
  assumes "a \<in> set pointer_actions"
    and "map_of d ''action'' = Some (PStr a)"
    and "map_of d ''coordinate'' = Some (PList [PInt x, PInt y])"
    and "0 \<le> x" "x \<le> 1000" "0 \<le> y" "y \<le> 1000"
    and "0 \<le> screen_width C" "screen_width C < 2 ^ 53"
    and "0 \<le> screen_height C" "screen_height C < 2 ^ 53"
  shows "\<exists>ev px py.
           trace (snd (execute_computer_action E C (PDict d) s))
             = trace s @ [(iteration_count s, ev)]
         \<and> event_xy ev = Some (px, py)
         \<and> px = py_int (fl (fl (fl (of_int x) / 1000) * fl (of_int (screen_width C))))
         \<and> py = py_int (fl (fl (fl (of_int y) / 1000) * fl (of_int (screen_height C))))
         \<and> 0 \<le> px \<and> px \<le> screen_width C \<and> 0 \<le> py \<and> py \<le> screen_height C"
proof -
  define px where "px = py_int (fl (fl (fl (of_int x) / 1000) * fl (of_int (screen_width C))))"
  define py where "py = py_int (fl (fl (fl (of_int y) / 1000) * fl (of_int (screen_height C))))"
  have X: "to_pixel (PInt x) (screen_width C) = Inr px" "0 \<le> px" "px \<le> screen_width C"
    using to_pixel_bounds [OF assms(4,5,8,9)] by (simp_all add: px_def)
  have Y: "to_pixel (PInt y) (screen_height C) = Inr py" "0 \<le> py" "py \<le> screen_height C"
    using to_pixel_bounds [OF assms(6,7,10,11)] by (simp_all add: py_def)
  have co: "py_get (PDict d) ''coordinate'' default_coordinate = Inr (PList [PInt x, PInt y])"
    using assms(3) by simp
  have "execute_computer_action E C (PDict d) s = pointer_call E (pointer_event a px py) s"
    using assms(1,2) co X(1) Y(1) by (rule pointer_dispatch)
  then have "trace (snd (execute_computer_action E C (PDict d) s))
      = trace s @ [(iteration_count s, pointer_event a px py)]"
    by (simp only: pointer_call_trace)
  with X(2,3) Y(2,3) show ?thesis
    unfolding px_def [symmetric] py_def [symmetric]
    using event_xy_pointer_event [of a px py] by blast
qed

theorem rescaled_pixel_truncated_in_screen_witness:
  "\<exists>ev px py.
     trace (snd (execute_computer_action quiet_env (screen 1920 1080)
              (PDict [(''action'', PStr ''left_click''),
                      (''coordinate'', PList [PInt 500, PInt 500])]) init_state))
       = trace init_state @ [(iteration_count init_state, ev)]
   \<and> event_xy ev = Some (px, py)
   \<and> px = py_int (fl (fl (fl (of_int 500) / 1000) * fl (of_int (screen_width (screen 1920 1080)))))
   \<and> py = py_int (fl (fl (fl (of_int 500) / 1000) * fl (of_int (screen_height (screen 1920 1080)))))
   \<and> 0 \<le> px \<and> px \<le> screen_width (screen 1920 1080)
   \<and> 0 \<le> py \<and> py \<le> screen_height (screen 1920 1080)"
  by (rule rescaled_pixel_truncated_in_screen [where a = "''left_click''"])
    (simp_all add: pointer_actions_def screen_def)

text \<open>
  C1 as stated fails: for \<open>x = y = 1\<close> on a screen of 900 by 900 pixels the click goes to
  pixel \<open>(0, 0)\<close>, where rounding \<open>1 / 1000 * 900 = 0.9\<close> gives 1.
\<close>

theorem rescaled_pixel_not_rounded:
  "click_normalized quiet_env (screen 900 900) (PInt 1) (PInt 1) ''left'' 1 init_state
     = (Inr True, init_state\<lparr>trace := [(0, Click 0 0 ''left'' 1)]\<rparr>)
   \<and> round ((1 :: rat) / 1000 * 900) = (1 :: int)"
proof -
  have "py_int (fl (fl (fl (of_int 1) / 1000) * fl (of_int 900))) = 0"
    by code_simp
  then have p: "to_pixel (PInt 1) 900 = Inr 0"
    using to_pixel_bounds [of 1 900] by simp
  have c: "click_normalized quiet_env (screen 900 900) (PInt 1) (PInt 1) ''left'' 1 init_state
      = pointer_call quiet_env (Click 0 0 ''left'' 1) init_state"
    by (simp add: click_normalized_def click_def pointer_call_def bindM_def liftE_def
        screen_def p)
  have r: "round ((1 :: rat) / 1000 * 900) = (1 :: int)"
    by code_simp
  show ?thesis
    unfolding c pointer_call_eq using r by (simp add: quiet_env_def init_state_def)
qed

text \<open>The scenario of the specification: \<^verbatim>\<open>left_click\<close> at \<open>[500, 500]\<close> on a screen of
  1920 by 1080 pixels clicks at pixel \<open>(960, 540)\<close>.\<close>

lemma left_click_centre_1920_1080:
  "execute_computer_action quiet_env (screen 1920 1080)
     (PDict [(''action'', PStr ''left_click''), (''coordinate'', PList [PInt 500, PInt 500])])
     init_state
   = (Inr True, init_state\<lparr>trace := [(0, Click 960 540 ''left'' 1)]\<rparr>)"
proof -
  have "py_int (fl (fl (fl (of_int 500) / 1000) * fl (of_int 1920))) = 960"
    by code_simp
  then have p: "to_pixel (PInt 500) 1920 = Inr 960"
    using to_pixel_bounds [of 500 1920] by simp
  have "py_int (fl (fl (fl (of_int 500) / 1000) * fl (of_int 1080))) = 540"
    by code_simp
  then have q: "to_pixel (PInt 500) 1080 = Inr 540"
    using to_pixel_bounds [of 500 1080] by simp
  have "execute_computer_action quiet_env (screen 1920 1080)
     (PDict [(''action'', PStr ''left_click''), (''coordinate'', PList [PInt 500, PInt 500])])
     init_state
   = pointer_call quiet_env (pointer_event ''left_click'' 960 540) init_state"
    apply (rule pointer_dispatch)
        apply (simp add: pointer_actions_def)
       apply simp
      apply (simp add: default_coordinate_def)
     apply (simp add: screen_def)
     apply (rule p)
    apply (simp add: screen_def)
    apply (rule q)
    done
  then show ?thesis
    unfolding pointer_call_eq by (simp add: quiet_env_def init_state_def pointer_event_def)
qed

text \<open>
  C9. A click, move or drag action without the \<^verbatim>\<open>coordinate\<close> field is executed as the same
  action with the coordinate \<open>[500, 500]\<close>: the dispatch does what it does for the
  descriptor with that coordinate written out, it makes its one call to pyautogui at the
  pixel of \<open>(500, 500)\<close>, and it reports success when that call returns (failure when
  the call raises an exception, which only an interrupt passes through).
\<close>

theorem missing_coordinate_defaults_to_500:
  assumes "a \<in> set pointer_actions"
    and "map_of d ''action'' = Some (PStr a)"
    and "map_of d ''coordinate'' = None"
    and "0 \<le> screen_width C" "screen_width C < 2 ^ 53"
    and "0 \<le> screen_height C" "screen_height C < 2 ^ 53"
  shows "execute_computer_action E C (PDict d) s
           = execute_computer_action E C
               (PDict ((''coordinate'', PList [PInt 500, PInt 500]) # d)) s
         \<and> (\<exists>ev px py.
               trace (snd (execute_computer_action E C (PDict d) s))
                 = trace s @ [(iteration_count s, ev)]
             \<and> event_xy ev = Some (px, py)
             \<and> to_pixel (PInt 500) (screen_width C) = Inr px
             \<and> to_pixel (PInt 500) (screen_height C) = Inr py
             \<and> fst (execute_computer_action E C (PDict d) s)
                 = (case os_call E (iteration_count s) ev of
                      None \<Rightarrow> Inr True
                    | Some e \<Rightarrow> if is_Exception e then Inr False else Inl e))"
proof -
  define px where "px = py_int (fl (fl (fl (of_int 500) / 1000) * fl (of_int (screen_width C))))"
  define py where "py = py_int (fl (fl (fl (of_int 500) / 1000) * fl (of_int (screen_height C))))"
  have X: "to_pixel (PInt 500) (screen_width C) = Inr px"
    using to_pixel_bounds [of 500, OF _ _ assms(4,5)] by (simp add: px_def)
  have Y: "to_pixel (PInt 500) (screen_height C) = Inr py"
    using to_pixel_bounds [of 500, OF _ _ assms(6,7)] by (simp add: py_def)
  let ?d' = "(''coordinate'', PList [PInt 500, PInt 500]) # d"
  have co: "py_get (PDict d) ''coordinate'' default_coordinate
      = Inr (PList [PInt 500, PInt 500])"
    using assms(3) by (simp add: default_coordinate_def)
  have co': "py_get (PDict ?d') ''coordinate'' default_coordinate
      = Inr (PList [PInt 500, PInt 500])"
    by simp
  have act': "map_of ?d' ''action'' = Some (PStr a)"
    using assms(2) by simp
  have 1: "execute_computer_action E C (PDict d) s = pointer_call E (pointer_event a px py) s"
    using assms(1,2) co X Y by (rule pointer_dispatch)
  have 2: "execute_computer_action E C (PDict ?d') s
      = pointer_call E (pointer_event a px py) s"
    using assms(1) act' co' X Y by (rule pointer_dispatch)
  have 3: "trace (snd (execute_computer_action E C (PDict d) s))
      = trace s @ [(iteration_count s, pointer_event a px py)]"
    unfolding 1 by (rule pointer_call_trace)
  have 4: "fst (execute_computer_action E C (PDict d) s)
      = (case os_call E (iteration_count s) (pointer_event a px py) of
           None \<Rightarrow> Inr True
         | Some e \<Rightarrow> if is_Exception e then Inr False else Inl e)"
    unfolding 1 pointer_call_eq
    by (cases "os_call E (iteration_count s) (pointer_event a px py)") simp_all
  from 1 2 have "execute_computer_action E C (PDict d) s
      = execute_computer_action E C (PDict ?d') s"
    by simp
  with 3 4 X Y event_xy_pointer_event [of a px py] show ?thesis
    by blast
qed

theorem missing_coordinate_defaults_to_500_witness:
  "execute_computer_action quiet_env (screen 1920 1080)
       (PDict [(''action'', PStr ''mouse_move'')]) init_state
     = execute_computer_action quiet_env (screen 1920 1080)
         (PDict ((''coordinate'', PList [PInt 500, PInt 500])
                 # [(''action'', PStr ''mouse_move'')])) init_state
   \<and> (\<exists>ev px py.
         trace (snd (execute_computer_action quiet_env (screen 1920 1080)
                  (PDict [(''action'', PStr ''mouse_move'')]) init_state))
           = trace init_state @ [(iteration_count init_state, ev)]
       \<and> event_xy ev = Some (px, py)
       \<and> to_pixel (PInt 500) (screen_width (screen 1920 1080)) = Inr px
       \<and> to_pixel (PInt 500) (screen_height (screen 1920 1080)) = Inr py
       \<and> fst (execute_computer_action quiet_env (screen 1920 1080)
                (PDict [(''action'', PStr ''mouse_move'')]) init_state)
           = (case os_call quiet_env (iteration_count init_state) ev of
                None \<Rightarrow> Inr True
              | Some e \<Rightarrow> if is_Exception e then Inr False else Inl e))"
  by (rule missing_coordinate_defaults_to_500 [where a = "''mouse_move''"])
    (simp_all add: pointer_actions_def screen_def)

subsection \<open>The prompt of the first iteration\<close>

text \<open>A reply that carries one structured tool call of the \<^verbatim>\<open>computer\<close> tool, a reply that
  is only text, and the worlds in which the model always gives the same reply.\<close>

definition tool_call :: "(string \<times> pyval) list \<Rightarrow> response" where
  "tool_call args =
     \<lparr>msg = Some \<lparr>content = Some [],
                   tool_calls = Some [PDict [(''function'',
                     PDict [(''name'', PStr ''computer''), (''arguments'', PDict args)])]]\<rparr>\<rparr>"

definition text_reply :: "string \<Rightarrow> response" where
  "text_reply c = \<lparr>msg = Some \<lparr>content = Some c, tool_calls = None\<rparr>\<rparr>"

definition replying :: "response \<Rightarrow> env" where
  "replying r = \<lparr>os_call = (\<lambda>k ev. None), chat = (\<lambda>k p. Inr r), json_loads = (\<lambda>s. None)\<rparr>"

definition limit :: "int \<Rightarrow> config" where
  "limit n = \<lparr>max_iterations = n, save_screenshots = False,
               screen_width = 1920, screen_height = 1080\<rparr>"

text \<open>
  C5. The first iteration should ask "What should I do first", the later ones "What should
  I do next". \<^verbatim>\<open>_think_and_decide\<close> tests \<^verbatim>\<open>self.iteration_count == 0\<close>, but \<^verbatim>\<open>run\<close> has
  already incremented the counter to 1 when it calls it: in a run whose model terminates
  at once, the one request sent carries the "next" prompt, which is not the "first"
  prompt.
\<close>

theorem first_iteration_asks_what_next:
  "trace (snd (run (replying (tool_call [(''action'', PStr ''terminate'')])) (limit 50)
                 ''open notepad'' init_state))
     = [(1, CaptureScreen), (1, ChatWithImage (next_prompt ''open notepad'')),
        (1, Sleep (1 / 2))]
   \<and> next_prompt ''open notepad'' \<noteq> first_prompt ''open notepad''"
  by code_simp

text \<open>The prompt is the "first" one only when the counter is zero, and the counter is at
  least one in every iteration of a run that starts from the reset state.\<close>

definition user_prompt :: "int \<Rightarrow> string \<Rightarrow> string" where
  "user_prompt k task = (if k = 0 then first_prompt task else next_prompt task)"

lemma think_and_decide_eq:
  "think_and_decide E task s =
     (chat E (iteration_count s) (user_prompt (iteration_count s) task),
      s\<lparr>trace := trace s @ [(iteration_count s,
            ChatWithImage (user_prompt (iteration_count s) task))]\<rparr>)"
  unfolding think_and_decide_def catchM_def chat_call_def raiseM_def user_prompt_def
  by (cases "chat E (iteration_count s)
        (if iteration_count s = 0 then first_prompt task else next_prompt task)") simp_all

subsection \<open>The states a run goes through\<close>

text \<open>The state in which the loop tests its condition for the \<open>n+1\<close>-th time, when the
  first \<open>n\<close> iterations were entered and returned.\<close>

fun after_iterations :: "env \<Rightarrow> config \<Rightarrow> string \<Rightarrow> nat \<Rightarrow> state \<Rightarrow> state option" where
  "after_iterations E C task 0 s = Some s"
| "after_iterations E C task (Suc n) s =
     (if iteration_count s < max_iterations C \<and> \<not> task_completed s then
        (case iteration E C task (s\<lparr>iteration_count := iteration_count s + 1\<rparr>) of
           (Inl e, s') \<Rightarrow> None
         | (Inr u, s') \<Rightarrow> after_iterations E C task n s')
      else None)"

lemma loop_after_iterations:
  "after_iterations E C task n s = Some s' \<Longrightarrow> loop E C task s = loop E C task s'"
proof (induction n arbitrary: s)
  case 0
  then show ?case by simp
next
  case (Suc n)
  from Suc.prems have c: "iteration_count s < max_iterations C \<and> \<not> task_completed s"
    by (simp split: if_splits)
  obtain res s1 where it: "iteration E C task (s\<lparr>iteration_count := iteration_count s + 1\<rparr>)
      = (res, s1)"
    by (cases "iteration E C task (s\<lparr>iteration_count := iteration_count s + 1\<rparr>)")
  from Suc.prems c it obtain u where r: "res = Inr u"
    and a: "after_iterations E C task n s1 = Some s'"
    by (cases res) simp_all
  have "loop E C task s = loop E C task s1"
    using c it r by (subst loop.simps) simp
  with Suc.IH [OF a] show ?case by simp
qed

lemma loop_done: "task_completed s \<Longrightarrow> loop E C task s = (Inr (), s)"
  by (subst loop.simps) simp

subsection \<open>Replies without an action\<close>

text \<open>The steps of an iteration when the calls return.\<close>

definition capture_events :: "config \<Rightarrow> int \<Rightarrow> (int \<times> event) list" where
  "capture_events C k =
     (k, CaptureScreen) # (if save_screenshots C then [(k, SaveScreenshot)] else [])"

lemma call_eq:
  "call E ev s =
     (case os_call E (iteration_count s) ev of None \<Rightarrow> Inr () | Some e \<Rightarrow> Inl e,
      s\<lparr>trace := trace s @ [(iteration_count s, ev)]\<rparr>)"
  unfolding call_def Let_def
  by (cases "os_call E (iteration_count s) ev") simp_all

lemma call_ok:
  "os_call E (iteration_count s) ev = None \<Longrightarrow>
   call E ev s = (Inr (), s\<lparr>trace := trace s @ [(iteration_count s, ev)]\<rparr>)"
  by (simp add: call_eq)

lemma capture_ok:
  assumes "os_call E (iteration_count s) CaptureScreen = None"
    and "os_call E (iteration_count s) SaveScreenshot = None"
  shows "capture_current_state E C s
           = (Inr (), s\<lparr>trace := trace s @ capture_events C (iteration_count s)\<rparr>)"
  using assms
  by (simp add: capture_current_state_def bindM_def call_ok returnM_def capture_events_def)

text \<open>The text of a reply is taken as a sign of completion when it contains "terminate"
  or "complete", whatever the case of the letters (lines 212 to 217 of
  \<^verbatim>\<open>_execute_action\<close>).\<close>

definition completion_text :: "response \<Rightarrow> bool" where
  "completion_text r =
     (case msg r of
        None \<Rightarrow> False
      | Some m \<Rightarrow>
         (case content m of
            None \<Rightarrow> False
          | Some c \<Rightarrow> contains (lower c) ''terminate'' \<or> contains (lower c) ''complete''))"


lemma decode_payload_errors:
  "decode_payload E c = Inl e \<Longrightarrow> e = JSONDecodeError \<or> e = IndexError"
  by (auto simp: decode_payload_def bindE_def nth_piece_def loads_def
      split: sum.splits if_splits option.splits)

lemma parse_never_raises: "\<exists>a. parse_computer_use_action E r = Inr a"
proof (cases "extract_tool_calls r")
  case (Cons t ts)
  then show ?thesis by (simp add: parse_computer_use_action_def)
next
  case Nil
  show ?thesis
  proof (cases "msg r")
    case None
    with Nil show ?thesis by (simp add: parse_computer_use_action_def)
  next
    case (Some m)
    show ?thesis
    proof (cases "content m")
      case None
      with Nil Some show ?thesis by (simp add: parse_computer_use_action_def)
    next
      case c: (Some c)
      show ?thesis
      proof (cases "decode_payload E c")
        case (Inl e)
        with decode_payload_errors [OF Inl] Nil Some c show ?thesis
          by (auto simp: parse_computer_use_action_def)
      next
        case (Inr a)
        with Nil Some c show ?thesis
          by (simp add: parse_computer_use_action_def)
      qed
    qed
  qed
qed




text \<open>The payload between the markers is decoded after \<^verbatim>\<open>strip()\<close>, which also removes a
  no-break space and a next line control; the test for the two words is made on the lower
  case form of the text.\<close>

lemma strip_no_break_space:
  "strip ([CHR 0xA0, CHR '' ''] @ ''[1, 2]'' @ [CHR 0x85, CHR 0x0A]) = ''[1, 2]''"
  by code_simp

lemma lower_latin1:
  "lower (''Task COMPLETE '' @ [CHR 0xC9, CHR 0xD7, CHR 0xDF])
     = ''task complete '' @ [CHR 0xE9, CHR 0xD7, CHR 0xDF]"
  by code_simp




subsection \<open>The pause after an action\<close>

text \<open>The action descriptor of a reply, as \<^verbatim>\<open>_execute_action\<close> reads it before it
  branches on the type: the name, the arguments and \<^verbatim>\<open>arguments.get('action')\<close>.\<close>

definition action_descriptor :: "env \<Rightarrow> response \<Rightarrow> (pyval \<times> pyval \<times> pyval) option" where
  "action_descriptor E r =
     (case parse_computer_use_action E r of
        Inl e \<Rightarrow> None
      | Inr action \<Rightarrow>
         if truthy action then
           (case extract_action_details E action of
              Inl e \<Rightarrow> None
            | Inr (action_name, arguments) \<Rightarrow>
               (case py_get arguments ''action'' PNone of
                  Inl e \<Rightarrow> None
                | Inr a \<Rightarrow> Some (action_name, arguments, a)))
         else None)"

lemma execute_action_descriptor:
  assumes "action_descriptor E r = Some (n, args, a)"
  shows "execute_action E C r =
     (if a = PStr ''terminate'' then
         bindM (liftE (py_get args ''status'' (PStr ''success''))) (\<lambda>st.
         bindM (set_completed st) (\<lambda>_. returnM True))
      else if a = PStr ''answer'' then
         bindM (liftE (py_get args ''text'' (PStr []))) (\<lambda>answer_text. returnM True)
      else
         bindM (execute_computer_use_action E C
                  (PDict [(''name'', n), (''arguments'', args)])) (\<lambda>success.
         if success \<and> a \<noteq> PStr ''wait''
         then bindM (call E (Sleep 1)) (\<lambda>_. returnM success)
         else returnM success))"
proof -
  from assms obtain action where p: "parse_computer_use_action E r = Inr action"
    and t: "truthy action"
    and x: "extract_action_details E action = Inr (n, args)"
    and g: "py_get args ''action'' PNone = Inr a"
    by (auto simp: action_descriptor_def split: sum.splits if_splits prod.splits)
  show ?thesis
    unfolding execute_action_def
    by (rule ext) (simp add: p t x g bindM_def liftE_def)
qed


text \<open>An iteration whose capture returns and whose request is answered with \<open>r\<close>.\<close>

lemma iteration_eq:
  assumes "os_call E (iteration_count s) CaptureScreen = None"
    and "os_call E (iteration_count s) SaveScreenshot = None"
    and "chat E (iteration_count s) (user_prompt (iteration_count s) task) = Inr r"
  shows "iteration E C task s =
     bindM (execute_action E C r) (\<lambda>success. call E (Sleep (1 / 2)))
       (s\<lparr>trace := trace s @ capture_events C (iteration_count s)
                    @ [(iteration_count s,
                        ChatWithImage (user_prompt (iteration_count s) task))],
          conversation_history := conversation_history s @ [(iteration_count s, r)]\<rparr>)"
  using assms
  by (simp add: iteration_def bindM_def capture_ok think_and_decide_eq append_history_def)





subsection \<open>Termination by the model\<close>

text \<open>
  C2. Take a run that reaches an iteration, the \<open>k\<close>-th, in which the capture, the request
  and the delay return and the reply of the model carries a \<^verbatim>\<open>terminate\<close> descriptor with
  the arguments \<open>d\<close>. The run ends there, and its result has the status given in \<open>d\<close>,
  \<^verbatim>\<open>success\<close> when \<open>d\<close> gives none, and reports success exactly when that status is
  \<^verbatim>\<open>success\<close>: so status \<^verbatim>\<open>success\<close> gives success true, status \<^verbatim>\<open>failure\<close> gives success
  false, and an omitted status gives success true with status \<^verbatim>\<open>success\<close>.
\<close>

theorem terminate_descriptor_result:
  assumes "after_iterations E C task n (reset s0) = Some s"
    and "iteration_count s < max_iterations C" and "\<not> task_completed s"
    and "k = iteration_count s + 1"
    and "os_call E k CaptureScreen = None" and "os_call E k SaveScreenshot = None"
    and "chat E k (user_prompt k task) = Inr r"
    and "action_descriptor E r = Some (name, PDict d, PStr ''terminate'')"
    and "os_call E k (Sleep (1 / 2)) = None"
  shows "fst (run E C task s0)
           = \<lparr>success = (map_of d ''status'' \<in> {None, Some (PStr ''success'')}),
              status = (case map_of d ''status'' of None \<Rightarrow> PStr ''success'' | Some v \<Rightarrow> v),
              message = TaskCompleted k, iterations = k\<rparr>
       \<and> (map_of d ''status'' = Some (PStr ''success'') \<longrightarrow>
            success (fst (run E C task s0))
          \<and> status (fst (run E C task s0)) = PStr ''success'')
       \<and> (map_of d ''status'' = Some (PStr ''failure'') \<longrightarrow>
            \<not> success (fst (run E C task s0))
          \<and> status (fst (run E C task s0)) = PStr ''failure'')
       \<and> (map_of d ''status'' = None \<longrightarrow>
            success (fst (run E C task s0))
          \<and> status (fst (run E C task s0)) = PStr ''success'')"
proof -
  define st where "st = (case map_of d ''status'' of None \<Rightarrow> PStr ''success'' | Some v \<Rightarrow> v)"
  let ?s0 = "s\<lparr>iteration_count := iteration_count s + 1\<rparr>"
  let ?s' = "s\<lparr>iteration_count := k,
       trace := trace s @ capture_events C k @ [(k, ChatWithImage (user_prompt k task))],
       conversation_history := conversation_history s @ [(k, r)]\<rparr>"
  let ?s2 = "?s'\<lparr>task_completed := True, task_status := st,
       trace := trace ?s' @ [(k, Sleep (1 / 2))]\<rparr>"
  have g: "py_get (PDict d) ''status'' (PStr ''success'') = Inr st"
    by (simp add: st_def split: option.splits)
  have "iteration E C task ?s0
      = bindM (execute_action E C r) (\<lambda>success. call E (Sleep (1 / 2))) ?s'"
    using iteration_eq [of E ?s0 task r C] assms(4-7) by simp
  also have "\<dots> = (Inr (), ?s2)"
    unfolding execute_action_descriptor [OF assms(8)]
    using assms(9)
    by (simp add: g bindM_def liftE_def set_completed_def returnM_def call_eq
        del: py_get.simps)
  finally have "loop E C task s = loop E C task ?s2"
    using assms(2,3) by (subst loop.simps) simp
  also have "\<dots> = (Inr (), ?s2)"
    by (rule loop_done) simp
  finally have "loop E C task (reset s0) = (Inr (), ?s2)"
    using loop_after_iterations [OF assms(1)] by simp
  then have "fst (run E C task s0)
      = \<lparr>success = (st = PStr ''success''), status = st,
         message = TaskCompleted k, iterations = k\<rparr>"
    by (simp add: run_def run_try_def bindM_def completion_def)
  moreover have "(st = PStr ''success'')
      = (map_of d ''status'' \<in> {None, Some (PStr ''success'')})"
    by (auto simp: st_def split: option.splits)
  ultimately show ?thesis
    by (simp add: st_def)
qed

text \<open>A world in which the model asks for a key press first and then terminates with the
  arguments \<open>d\<close>.\<close>

definition key_then_terminate :: "(string \<times> pyval) list \<Rightarrow> env" where
  "key_then_terminate d =
     \<lparr>os_call = (\<lambda>k ev. None),
      chat = (\<lambda>k p. if k = 1
                     then Inr (tool_call [(''action'', PStr ''key''), (''text'', PStr ''enter'')])
                     else Inr (tool_call ((''action'', PStr ''terminate'') # d))),
      json_loads = (\<lambda>s. None)\<rparr>"

lemma after_key_then_terminate:
  "after_iterations (key_then_terminate d) (limit 50) ''open notepad'' 1 (reset init_state)
     = Some \<lparr>iteration_count = 1, task_completed = False, task_status = PNone,
             conversation_history =
               [(1, tool_call [(''action'', PStr ''key''), (''text'', PStr ''enter'')])],
             trace = [(1, CaptureScreen), (1, ChatWithImage (next_prompt ''open notepad'')),
                      (1, Press (PStr ''enter'')), (1, Sleep 1), (1, Sleep (1 / 2))]\<rparr>"
  by code_simp

lemma descriptor_key_then_terminate:
  "action_descriptor (key_then_terminate d') (tool_call ((''action'', PStr ''terminate'') # d))
     = Some (PStr ''computer'', PDict ((''action'', PStr ''terminate'') # d), PStr ''terminate'')"
  by (simp add: action_descriptor_def parse_computer_use_action_def extract_tool_calls_def
      tool_call_def extract_action_details_def bindE_def)

theorem terminate_descriptor_result_witness:
  "fst (run (key_then_terminate [(''status'', PStr ''success'')]) (limit 50)
          ''open notepad'' init_state)
     = \<lparr>success = True, status = PStr ''success'', message = TaskCompleted 2, iterations = 2\<rparr>
   \<and> fst (run (key_then_terminate [(''status'', PStr ''failure'')]) (limit 50)
          ''open notepad'' init_state)
     = \<lparr>success = False, status = PStr ''failure'', message = TaskCompleted 2, iterations = 2\<rparr>
   \<and> fst (run (key_then_terminate []) (limit 50) ''open notepad'' init_state)
     = \<lparr>success = True, status = PStr ''success'', message = TaskCompleted 2, iterations = 2\<rparr>"
  using
    terminate_descriptor_result [where E = "key_then_terminate [(''status'', PStr ''success'')]"
      and k = 2 and d = "[(''action'', PStr ''terminate''), (''status'', PStr ''success'')]",
      OF after_key_then_terminate _ _ _ _ _ _ descriptor_key_then_terminate]
    terminate_descriptor_result [where E = "key_then_terminate [(''status'', PStr ''failure'')]"
      and k = 2 and d = "[(''action'', PStr ''terminate''), (''status'', PStr ''failure'')]",
      OF after_key_then_terminate _ _ _ _ _ _ descriptor_key_then_terminate]
    terminate_descriptor_result [where E = "key_then_terminate []"
      and k = 2 and d = "[(''action'', PStr ''terminate'')]",
      OF after_key_then_terminate _ _ _ _ _ _ descriptor_key_then_terminate]
  by (simp add: key_then_terminate_def limit_def)

subsection \<open>Runs that use up their iterations\<close>

text \<open>Statements that leave \<^verbatim>\<open>self.task_completed\<close> as it is.\<close>

definition keeps_completed :: "'a prog \<Rightarrow> bool" where
  "keeps_completed m = (\<forall>s r s'. m s = (r, s') \<longrightarrow> task_completed s' = task_completed s)"

lemma completed_returnM: "keeps_completed (returnM x)"
  by (simp add: keeps_completed_def returnM_def)

lemma completed_raiseM: "keeps_completed (raiseM e)"
  by (simp add: keeps_completed_def raiseM_def)

lemma completed_liftE: "keeps_completed (liftE r)"
  by (simp add: keeps_completed_def liftE_def)

lemma completed_bindM:
  "keeps_completed m \<Longrightarrow> (\<And>x. keeps_completed (f x)) \<Longrightarrow> keeps_completed (bindM m f)"
  unfolding keeps_completed_def bindM_def
  by (auto split: prod.splits sum.splits)

lemma completed_bind_liftE:
  "(\<And>v. x = Inr v \<Longrightarrow> keeps_completed (f v)) \<Longrightarrow> keeps_completed (bindM (liftE x) f)"
  unfolding keeps_completed_def bindM_def liftE_def
  by (auto split: prod.splits sum.splits)

lemma completed_catchM:
  "keeps_completed m \<Longrightarrow> (\<And>e. keeps_completed (h e)) \<Longrightarrow> keeps_completed (catchM m c h)"
  unfolding keeps_completed_def catchM_def
  by (auto split: prod.splits sum.splits if_splits)

lemma completed_call: "keeps_completed (call E ev)"
  by (simp add: keeps_completed_def call_eq)

lemma completed_if:
  "keeps_completed m \<Longrightarrow> keeps_completed n \<Longrightarrow> keeps_completed (if b then m else n)"
  by simp

lemmas completed_intros =
  completed_returnM completed_raiseM completed_liftE completed_bindM completed_catchM
  completed_call completed_if

lemma completed_click_normalized: "keeps_completed (click_normalized E C x y b c)"
  unfolding click_normalized_def click_def by (intro completed_intros)

lemma completed_execute_computer_action:
  "keeps_completed (execute_computer_action E C args)"
  unfolding execute_computer_action_def move_mouse_def type_text_def press_key_def
    scroll_def drag_def
  by (intro completed_intros completed_click_normalized)

lemma completed_execute_computer_use_action:
  "keeps_completed (execute_computer_use_action E C a)"
  unfolding execute_computer_use_action_def
  by (intro completed_intros completed_execute_computer_action)

lemma completed_capture: "keeps_completed (capture_current_state E C)"
  unfolding capture_current_state_def by (intro completed_intros)

text \<open>The two ways in which a reply makes \<^verbatim>\<open>_execute_action\<close> set
  \<^verbatim>\<open>self.task_completed\<close>: an action of the type \<^verbatim>\<open>terminate\<close>, and a reply without an
  action whose text contains "terminate" or "complete".\<close>

definition terminate_descriptor :: "env \<Rightarrow> response \<Rightarrow> bool" where
  "terminate_descriptor E r =
     (case action_descriptor E r of
        None \<Rightarrow> False
      | Some (action_name, arguments, a) \<Rightarrow> a = PStr ''terminate'')"

definition textual_completion :: "env \<Rightarrow> response \<Rightarrow> bool" where
  "textual_completion E r =
     (case parse_computer_use_action E r of
        Inl e \<Rightarrow> False
      | Inr action \<Rightarrow> \<not> truthy action \<and> completion_text r)"

lemma completed_execute_action:
  assumes nt: "\<not> terminate_descriptor E r" and nx: "\<not> textual_completion E r"
  shows "keeps_completed (execute_action E C r)"
  unfolding execute_action_def
proof (rule completed_bind_liftE)
  fix action
  assume p: "parse_computer_use_action E r = Inr action"
  show "keeps_completed
     (if \<not> truthy action then
        (case msg r of
           None \<Rightarrow> returnM False
         | Some m \<Rightarrow>
            (case content m of
               None \<Rightarrow> returnM False
             | Some c \<Rightarrow>
                if contains (lower c) ''terminate'' \<or> contains (lower c) ''complete''
                then bindM (set_completed (PStr ''success'')) (\<lambda>_. returnM True)
                else returnM False))
      else
        bindM (liftE (extract_action_details E action)) (\<lambda>(action_name, arguments).
        bindM (liftE (py_get arguments ''action'' PNone)) (\<lambda>a.
        if a = PStr ''terminate'' then
          bindM (liftE (py_get arguments ''status'' (PStr ''success''))) (\<lambda>st.
          bindM (set_completed st) (\<lambda>_. returnM True))
        else if a = PStr ''answer'' then
          bindM (liftE (py_get arguments ''text'' (PStr []))) (\<lambda>answer_text. returnM True)
        else
          bindM (execute_computer_use_action E C
                   (PDict [(''name'', action_name), (''arguments'', arguments)])) (\<lambda>success.
          if success \<and> a \<noteq> PStr ''wait''
          then bindM (call E (Sleep 1)) (\<lambda>_. returnM success)
          else returnM success))))"
  proof (cases "truthy action")
    case False
    with nx p have "\<not> completion_text r"
      by (simp add: textual_completion_def)
    with False show ?thesis
      by (auto simp: completion_text_def completed_returnM split: option.splits)
  next
    case True
    have "keeps_completed
        (bindM (liftE (extract_action_details E action)) (\<lambda>(action_name, arguments).
         bindM (liftE (py_get arguments ''action'' PNone)) (\<lambda>a.
         if a = PStr ''terminate'' then
           bindM (liftE (py_get arguments ''status'' (PStr ''success''))) (\<lambda>st.
           bindM (set_completed st) (\<lambda>_. returnM True))
         else if a = PStr ''answer'' then
           bindM (liftE (py_get arguments ''text'' (PStr []))) (\<lambda>answer_text. returnM True)
         else
           bindM (execute_computer_use_action E C
                    (PDict [(''name'', action_name), (''arguments'', arguments)])) (\<lambda>success.
           if success \<and> a \<noteq> PStr ''wait''
           then bindM (call E (Sleep 1)) (\<lambda>_. returnM success)
           else returnM success))))"
    proof (rule completed_bind_liftE)
      fix v
      assume x: "extract_action_details E action = Inr v"
      obtain n args where v: "v = (n, args)" by (cases v)
      have "keeps_completed
          (bindM (liftE (py_get args ''action'' PNone)) (\<lambda>a.
           if a = PStr ''terminate'' then
             bindM (liftE (py_get args ''status'' (PStr ''success''))) (\<lambda>st.
             bindM (set_completed st) (\<lambda>_. returnM True))
           else if a = PStr ''answer'' then
             bindM (liftE (py_get args ''text'' (PStr []))) (\<lambda>answer_text. returnM True)
           else
             bindM (execute_computer_use_action E C
                      (PDict [(''name'', n), (''arguments'', args)])) (\<lambda>success.
             if success \<and> a \<noteq> PStr ''wait''
             then bindM (call E (Sleep 1)) (\<lambda>_. returnM success)
             else returnM success)))"
      proof (rule completed_bind_liftE)
        fix a
        assume g: "py_get args ''action'' PNone = Inr a"
        have "action_descriptor E r = Some (n, args, a)"
          using p True x v g by (simp add: action_descriptor_def)
        with nt have a: "a \<noteq> PStr ''terminate''"
          by (simp add: terminate_descriptor_def)
        show "keeps_completed
            (if a = PStr ''terminate'' then
               bindM (liftE (py_get args ''status'' (PStr ''success''))) (\<lambda>st.
               bindM (set_completed st) (\<lambda>_. returnM True))
             else if a = PStr ''answer'' then
               bindM (liftE (py_get args ''text'' (PStr []))) (\<lambda>answer_text. returnM True)
             else
               bindM (execute_computer_use_action E C
                        (PDict [(''name'', n), (''arguments'', args)])) (\<lambda>success.
               if success \<and> a \<noteq> PStr ''wait''
               then bindM (call E (Sleep 1)) (\<lambda>_. returnM success)
               else returnM success))"
          unfolding if_not_P [OF a]
          by (intro completed_intros completed_execute_computer_use_action)
      qed
      then show "keeps_completed
          (case v of (action_name, arguments) \<Rightarrow>
           bindM (liftE (py_get arguments ''action'' PNone)) (\<lambda>a.
           if a = PStr ''terminate'' then
             bindM (liftE (py_get arguments ''status'' (PStr ''success''))) (\<lambda>st.
             bindM (set_completed st) (\<lambda>_. returnM True))
           else if a = PStr ''answer'' then
             bindM (liftE (py_get arguments ''text'' (PStr []))) (\<lambda>answer_text. returnM True)
           else
             bindM (execute_computer_use_action E C
                      (PDict [(''name'', action_name), (''arguments'', arguments)])) (\<lambda>success.
             if success \<and> a \<noteq> PStr ''wait''
             then bindM (call E (Sleep 1)) (\<lambda>_. returnM success)
             else returnM success)))"
        by (simp add: v)
    qed
    with True show ?thesis by simp
  qed
qed

lemma capture_count:
  "capture_current_state E C s = (res, s') \<Longrightarrow> iteration_count s' = iteration_count s"
proof -
  have "keeps_count (capture_current_state E C)"
    unfolding capture_current_state_def by (intro keeps_intros)
  then show "capture_current_state E C s = (res, s') \<Longrightarrow> iteration_count s' = iteration_count s"
    unfolding keeps_count_def by blast
qed

text \<open>An iteration whose reply, if there is one, does neither leaves
  \<^verbatim>\<open>self.task_completed\<close> as it is.\<close>

lemma iteration_completed:
  assumes nc: "\<And>r. chat E (iteration_count s) (user_prompt (iteration_count s) task) = Inr r
                 \<Longrightarrow> \<not> terminate_descriptor E r \<and> \<not> textual_completion E r"
    and it: "iteration E C task s = (res, s')"
  shows "task_completed s' = task_completed s"
proof -
  let ?k = "iteration_count s"
  let ?p = "user_prompt ?k task"
  obtain c s1 where c: "capture_current_state E C s = (c, s1)"
    by (cases "capture_current_state E C s")
  have s1: "task_completed s1 = task_completed s"
    using completed_capture [of E C] c unfolding keeps_completed_def by blast
  have k1: "iteration_count s1 = ?k"
    using c by (rule capture_count)
  show ?thesis
  proof (cases c)
    case (Inl e)
    with it c have "s' = s1" by (simp add: iteration_def bindM_def)
    with s1 show ?thesis by simp
  next
    case u: (Inr u)
    let ?s2 = "s1\<lparr>trace := trace s1 @ [(?k, ChatWithImage ?p)]\<rparr>"
    have th: "think_and_decide E task s1 = (chat E ?k ?p, ?s2)"
      using think_and_decide_eq [of E task s1] k1 by simp
    show ?thesis
    proof (cases "chat E ?k ?p")
      case (Inl e)
      with it c u th have "s' = ?s2" by (simp add: iteration_def bindM_def)
      with s1 show ?thesis by simp
    next
      case r: (Inr r)
      let ?s3 = "?s2\<lparr>conversation_history := conversation_history ?s2 @ [(?k, r)]\<rparr>"
      obtain x s4 where x: "execute_action E C r ?s3 = (x, s4)"
        by (cases "execute_action E C r ?s3")
      from nc [OF r] have "keeps_completed (execute_action E C r)"
        by (simp add: completed_execute_action)
      with x have s4: "task_completed s4 = task_completed s"
        unfolding keeps_completed_def using s1 by fastforce
      have i: "iteration E C task s
          = (case x of Inl e \<Rightarrow> (Inl e, s4) | Inr b \<Rightarrow> call E (Sleep (1 / 2)) s4)"
        using c u th r x k1 by (simp add: iteration_def bindM_def append_history_def)
      show ?thesis
      proof (cases x)
        case (Inl e)
        with i it have "s' = s4" by simp
        with s4 show ?thesis by simp
      next
        case (Inr b)
        with i it have "s' = s4\<lparr>trace := trace s4 @ [(iteration_count s4, Sleep (1 / 2))]\<rparr>"
          by (simp add: call_eq)
        with s4 show ?thesis by simp
      qed
    qed
  qed
qed

lemma loop_timeout:
  "loop E C task s = (Inr u, s') \<Longrightarrow>
   \<forall>k\<in>{1..max_iterations C}. \<forall>r. chat E k (user_prompt k task) = Inr r \<longrightarrow>
      \<not> terminate_descriptor E r \<and> \<not> textual_completion E r \<Longrightarrow>
   \<not> task_completed s \<Longrightarrow> 0 \<le> iteration_count s \<Longrightarrow>
   iteration_count s \<le> max_iterations C \<Longrightarrow>
   \<not> task_completed s' \<and> iteration_count s' = max_iterations C"
proof (induction E C task s rule: loop.induct)
  case (1 E C task s)
  show ?case
  proof (cases "iteration_count s < max_iterations C \<and> \<not> task_completed s")
    case False
    with "1.prems"(1) have "s' = s" by (subst (asm) loop.simps) simp
    with False "1.prems" show ?thesis by simp
  next
    case True
    let ?s0 = "s\<lparr>iteration_count := iteration_count s + 1\<rparr>"
    obtain res s1 where it: "iteration E C task ?s0 = (res, s1)"
      by (cases "iteration E C task ?s0")
    from "1.prems"(1) True it obtain v where r: "res = Inr v"
      and l: "loop E C task s1 = (Inr u, s')"
      by (subst (asm) loop.simps) (cases res; simp)
    have k: "iteration_count s1 = iteration_count s + 1"
      using iteration_count_iteration [OF it] by simp
    have "iteration_count s + 1 \<in> {1..max_iterations C}"
      using True "1.prems"(4) by simp
    with "1.prems"(2) have "\<forall>r. chat E (iteration_count s + 1)
          (user_prompt (iteration_count s + 1) task) = Inr r
        \<longrightarrow> \<not> terminate_descriptor E r \<and> \<not> textual_completion E r"
      by (rule bspec)
    then have "\<And>r. chat E (iteration_count ?s0)
          (user_prompt (iteration_count ?s0) task) = Inr r
        \<Longrightarrow> \<not> terminate_descriptor E r \<and> \<not> textual_completion E r"
      by simp
    from iteration_completed [OF this it] "1.prems"(3)
    have c: "\<not> task_completed s1" by simp
    show ?thesis
      using "1.IH" [OF True it [symmetric] r l "1.prems"(2) c] k True "1.prems"(4)
      by simp
  qed
qed

text \<open>
  C3, as the code has it. Take a run with a limit that is not negative, in which no reply
  of the model carries a \<^verbatim>\<open>terminate\<close> descriptor, no reply without an action has a text
  that contains "terminate" or "complete", and which is not ended by an exception (its
  status is neither \<^verbatim>\<open>error\<close> nor \<^verbatim>\<open>interrupted\<close>). Its result has the status \<^verbatim>\<open>timeout\<close>,
  success false, and as many iterations as the limit.
\<close>

theorem no_completion_times_out:
  assumes "0 \<le> max_iterations C"
    and "\<forall>k\<in>{1..max_iterations C}. \<forall>r. chat E k (user_prompt k task) = Inr r \<longrightarrow>
           \<not> terminate_descriptor E r \<and> \<not> textual_completion E r"
    and "status (fst (run E C task s0)) \<noteq> PStr ''error''"
    and "status (fst (run E C task s0)) \<noteq> PStr ''interrupted''"
  shows "fst (run E C task s0)
           = \<lparr>success = False, status = PStr ''timeout'',
              message = TaskTimeout (max_iterations C), iterations = max_iterations C\<rparr>"
proof -
  obtain res s' where l: "loop E C task (reset s0) = (res, s')"
    by (cases "loop E C task (reset s0)")
  show ?thesis
  proof (cases res)
    case (Inl e)
    with l assms(3,4) show ?thesis
      by (simp add: run_def run_try_def bindM_def split: if_splits)
  next
    case (Inr u)
    have "\<not> task_completed s' \<and> iteration_count s' = max_iterations C"
      using loop_timeout [OF l [unfolded Inr] assms(2)] assms(1)
      by (simp add: reset_def)
    with l Inr show ?thesis
      by (simp add: run_def run_try_def bindM_def completion_def)
  qed
qed

theorem no_completion_times_out_witness:
  "fst (run (replying (tool_call [(''action'', PStr ''key''), (''text'', PStr ''enter'')]))
          (limit 3) ''open notepad'' init_state)
     = \<lparr>success = False, status = PStr ''timeout'',
        message = TaskTimeout (max_iterations (limit 3)), iterations = max_iterations (limit 3)\<rparr>"
proof (rule no_completion_times_out)
  let ?r = "tool_call [(''action'', PStr ''key''), (''text'', PStr ''enter'')]"
  have a: "\<not> terminate_descriptor (replying ?r) ?r" by code_simp
  have b: "\<not> textual_completion (replying ?r) ?r" by code_simp
  show "\<forall>k\<in>{1..max_iterations (limit 3)}.
          \<forall>r. chat (replying ?r) k (user_prompt k ''open notepad'') = Inr r \<longrightarrow>
              \<not> terminate_descriptor (replying ?r) r \<and> \<not> textual_completion (replying ?r) r"
  proof (intro ballI allI impI)
    fix k r
    assume "chat (replying ?r) k (user_prompt k ''open notepad'') = Inr r"
    then have "r = ?r" by (simp add: replying_def)
    with a b show "\<not> terminate_descriptor (replying ?r) r \<and> \<not> textual_completion (replying ?r) r"
      by simp
  qed
  show "0 \<le> max_iterations (limit 3)" by (simp add: limit_def)
  show "status (fst (run (replying ?r) (limit 3) ''open notepad'' init_state)) \<noteq> PStr ''error''"
    by code_simp
  show "status (fst (run (replying ?r) (limit 3) ''open notepad'' init_state))
      \<noteq> PStr ''interrupted''"
    by code_simp
qed

text \<open>
  C3 as stated fails: with a limit of one iteration and the reply "The task is complete.",
  which carries no descriptor at all, the run takes its one iteration and ends with the
  status \<^verbatim>\<open>success\<close>, not \<^verbatim>\<open>timeout\<close>.
\<close>

theorem textual_completion_is_not_timeout:
  "\<not> terminate_descriptor (replying (text_reply ''The task is complete.''))
       (text_reply ''The task is complete.'')
   \<and> max_iterations (limit 1) = 1
   \<and> fst (run (replying (text_reply ''The task is complete.'')) (limit 1)
             ''open notepad'' init_state)
       = \<lparr>success = True, status = PStr ''success'', message = TaskCompleted 1,
          iterations = 1\<rparr>"
  by code_simp

subsection \<open>Interrupts\<close>

text \<open>Python delivers an interrupt as the exception \<^verbatim>\<open>KeyboardInterrupt\<close>, raised in the
  call during which the signal arrives. The calls of a run are the entries that it adds to
  the trace; a call is interrupted when the world answers it with that exception.\<close>

fun interrupts :: "env \<Rightarrow> int \<times> event \<Rightarrow> bool" where
  "interrupts E (k, ChatWithImage p) = (chat E k p = Inl KeyboardInterrupt)"
| "interrupts E (k, ev) = (os_call E k ev = Some KeyboardInterrupt)"

definition calls_of_run :: "env \<Rightarrow> config \<Rightarrow> string \<Rightarrow> state \<Rightarrow> (int \<times> event) list" where
  "calls_of_run E C task s = drop (length (trace s)) (trace (snd (run E C task s)))"

definition quiet :: "env \<Rightarrow> (int \<times> event) list \<Rightarrow> bool" where
  "quiet E xs = (\<forall>x\<in>set xs. \<not> interrupts E x)"

text \<open>A statement passes interrupts on: of the calls it makes, only the last can be
  interrupted, and then the statement raises \<^verbatim>\<open>KeyboardInterrupt\<close>.\<close>

definition passes_on :: "env \<Rightarrow> (int \<times> event) list \<Rightarrow> exn + 'a \<Rightarrow> bool" where
  "passes_on E new res =
     (quiet E new \<or> (res = Inl KeyboardInterrupt \<and> new \<noteq> [] \<and> quiet E (butlast new)))"

definition intr_ok :: "env \<Rightarrow> 'a prog \<Rightarrow> bool" where
  "intr_ok E m =
     (\<forall>s res s'. m s = (res, s') \<longrightarrow> (\<exists>new. trace s' = trace s @ new \<and> passes_on E new res))"

lemma passes_on_Nil: "passes_on E [] res"
  by (simp add: passes_on_def quiet_def)

lemma passes_on_seq:
  "quiet E n1 \<Longrightarrow> passes_on E n2 res \<Longrightarrow> passes_on E (n1 @ n2) res"
  by (auto simp: passes_on_def quiet_def butlast_append)

lemma passes_on_Inr: "passes_on E new (Inr x) \<Longrightarrow> quiet E new"
  by (simp add: passes_on_def)

lemma passes_on_Exception:
  "passes_on E new (Inl e) \<Longrightarrow> is_Exception e \<Longrightarrow> quiet E new"
  by (auto simp: passes_on_def is_Exception_def)

lemma intr_okD:
  "intr_ok E m \<Longrightarrow> m s = (res, s') \<Longrightarrow> \<exists>new. trace s' = trace s @ new \<and> passes_on E new res"
  unfolding intr_ok_def by blast

lemma intr_pure:
  "(\<And>s. trace (snd (m s)) = trace s) \<Longrightarrow> intr_ok E m"
  unfolding intr_ok_def
proof (intro allI impI)
  fix s res s'
  assume t: "\<And>s. trace (snd (m s)) = trace s" and m: "m s = (res, s')"
  from t [of s] m have "trace s' = trace s @ []" by simp
  then show "\<exists>new. trace s' = trace s @ new \<and> passes_on E new res"
    using passes_on_Nil by blast
qed

lemma intr_returnM: "intr_ok E (returnM x)"
  by (rule intr_pure) (simp add: returnM_def)

lemma intr_raiseM: "intr_ok E (raiseM e)"
  by (rule intr_pure) (simp add: raiseM_def)

lemma intr_liftE: "intr_ok E (liftE r)"
  by (rule intr_pure) (simp add: liftE_def)

lemma intr_set_completed: "intr_ok E (set_completed st)"
  by (rule intr_pure) (simp add: set_completed_def)

lemma intr_append_history: "intr_ok E (append_history r)"
  by (rule intr_pure) (simp add: append_history_def)

lemma intr_bindM:
  assumes m: "intr_ok E m" and f: "\<And>x. intr_ok E (f x)"
  shows "intr_ok E (bindM m f)"
  unfolding intr_ok_def
proof (intro allI impI)
  fix s res s'
  assume b: "bindM m f s = (res, s')"
  obtain r1 s1 where m1: "m s = (r1, s1)" by (cases "m s")
  from intr_okD [OF m m1] obtain n1 where t1: "trace s1 = trace s @ n1"
    and p1: "passes_on E n1 r1" by blast
  show "\<exists>new. trace s' = trace s @ new \<and> passes_on E new res"
  proof (cases r1)
    case (Inl e)
    with b m1 have "res = Inl e" "s' = s1" by (simp_all add: bindM_def)
    with t1 p1 Inl show ?thesis by (auto simp: passes_on_def)
  next
    case (Inr x)
    with b m1 have "f x s1 = (res, s')" by (simp add: bindM_def)
    from intr_okD [OF f this] obtain n2 where t2: "trace s' = trace s1 @ n2"
      and p2: "passes_on E n2 res" by blast
    from p1 Inr have "quiet E n1" by (simp add: passes_on_def)
    then have "passes_on E (n1 @ n2) res" using p2 by (rule passes_on_seq)
    moreover have "trace s' = trace s @ (n1 @ n2)" using t1 t2 by simp
    ultimately show ?thesis by blast
  qed
qed

text \<open>\<^verbatim>\<open>except Exception\<close> does not catch \<^verbatim>\<open>KeyboardInterrupt\<close>.\<close>

lemma intr_catchM:
  assumes m: "intr_ok E m" and h: "\<And>e. intr_ok E (h e)"
  shows "intr_ok E (catchM m is_Exception h)"
  unfolding intr_ok_def
proof (intro allI impI)
  fix s res s'
  assume b: "catchM m is_Exception h s = (res, s')"
  obtain r1 s1 where m1: "m s = (r1, s1)" by (cases "m s")
  from intr_okD [OF m m1] obtain n1 where t1: "trace s1 = trace s @ n1"
    and p1: "passes_on E n1 r1" by blast
  show "\<exists>new. trace s' = trace s @ new \<and> passes_on E new res"
  proof (cases r1)
    case (Inr x)
    with b m1 have "res = r1" "s' = s1" by (simp_all add: catchM_def)
    with t1 p1 show ?thesis by blast
  next
    case (Inl e)
    show ?thesis
    proof (cases "is_Exception e")
      case False
      with b m1 Inl have "res = r1" "s' = s1" by (simp_all add: catchM_def)
      with t1 p1 show ?thesis by blast
    next
      case True
      with b m1 Inl have "h e s1 = (res, s')" by (simp add: catchM_def)
      from intr_okD [OF h this] obtain n2 where t2: "trace s' = trace s1 @ n2"
        and p2: "passes_on E n2 res" by blast
      from p1 Inl True have "quiet E n1" by (auto intro: passes_on_Exception)
      then have "passes_on E (n1 @ n2) res" using p2 by (rule passes_on_seq)
      moreover have "trace s' = trace s @ (n1 @ n2)" using t1 t2 by simp
      ultimately show ?thesis by blast
    qed
  qed
qed

lemma intr_if: "intr_ok E m \<Longrightarrow> intr_ok E n \<Longrightarrow> intr_ok E (if b then m else n)"
  by simp

lemma intr_call:
  assumes "\<And>p. ev \<noteq> ChatWithImage p"
  shows "intr_ok E (call E ev)"
  unfolding intr_ok_def
proof (intro allI impI)
  fix s res s'
  assume c: "call E ev s = (res, s')"
  have i: "interrupts E (k, ev) = (os_call E k ev = Some KeyboardInterrupt)" for k
    using assms by (cases ev) auto
  from c have t: "trace s' = trace s @ [(iteration_count s, ev)]"
    and r: "res = (case os_call E (iteration_count s) ev of None \<Rightarrow> Inr () | Some e \<Rightarrow> Inl e)"
    by (auto simp: call_eq)
  have "passes_on E [(iteration_count s, ev)] res"
    unfolding r passes_on_def quiet_def
    by (cases "os_call E (iteration_count s) ev") (simp_all add: i)
  with t show "\<exists>new. trace s' = trace s @ new \<and> passes_on E new res" by blast
qed

lemma intr_think_and_decide: "intr_ok E (think_and_decide E task)"
  unfolding intr_ok_def
proof (intro allI impI)
  fix s res s'
  assume c: "think_and_decide E task s = (res, s')"
  let ?x = "(iteration_count s, ChatWithImage (user_prompt (iteration_count s) task))"
  from c have t: "trace s' = trace s @ [?x]"
    and r: "res = chat E (iteration_count s) (user_prompt (iteration_count s) task)"
    by (auto simp: think_and_decide_eq)
  have "passes_on E [?x] res"
    unfolding r passes_on_def quiet_def by simp
  with t show "\<exists>new. trace s' = trace s @ new \<and> passes_on E new res" by blast
qed

lemmas intr_intros =
  intr_returnM intr_raiseM intr_liftE intr_bindM intr_catchM intr_if
  intr_set_completed intr_append_history

lemma intr_click_normalized: "intr_ok E (click_normalized E C x y b c)"
  unfolding click_normalized_def click_def
  by (intro intr_intros intr_call) simp

lemma intr_execute_computer_action: "intr_ok E (execute_computer_action E C args)"
  unfolding execute_computer_action_def move_mouse_def type_text_def press_key_def
    scroll_def drag_def
  by (intro intr_intros intr_click_normalized intr_call) simp_all

lemma intr_execute_computer_use_action:
  "intr_ok E (execute_computer_use_action E C a)"
  unfolding execute_computer_use_action_def
  by (intro intr_intros intr_execute_computer_action)

lemma intr_sleep: "intr_ok E (call E (Sleep t))"
  by (rule intr_call) simp

lemma intr_execute_action: "intr_ok E (execute_action E C r)"
  unfolding execute_action_def
  by (intro intr_intros intr_execute_computer_use_action)
    (auto intro!: intr_intros intr_execute_computer_use_action intr_sleep
          split: option.splits prod.splits)

lemma intr_capture: "intr_ok E (capture_current_state E C)"
  unfolding capture_current_state_def
  by (intro intr_intros intr_call) simp_all

lemma intr_iteration: "intr_ok E (iteration E C task)"
  unfolding iteration_def
  by (intro intr_intros intr_capture intr_think_and_decide intr_execute_action intr_sleep)

lemma intr_loop:
  "loop E C task s = (res, s') \<Longrightarrow>
   \<exists>new. trace s' = trace s @ new \<and> passes_on E new res"
proof (induction E C task s rule: loop.induct)
  case (1 E C task s)
  show ?case
  proof (cases "iteration_count s < max_iterations C \<and> \<not> task_completed s")
    case False
    with "1.prems" have "s' = s" by (subst (asm) loop.simps) simp
    then have "trace s' = trace s @ []" by simp
    then show ?thesis using passes_on_Nil by blast
  next
    case True
    let ?s0 = "s\<lparr>iteration_count := iteration_count s + 1\<rparr>"
    obtain r1 s1 where it: "iteration E C task ?s0 = (r1, s1)"
      by (cases "iteration E C task ?s0")
    from intr_okD [OF intr_iteration it] obtain n1 where t1: "trace s1 = trace s @ n1"
      and p1: "passes_on E n1 r1" by auto
    show ?thesis
    proof (cases r1)
      case (Inl e)
      with "1.prems" True it have "res = Inl e" "s' = s1"
        by (subst (asm) loop.simps, simp)+
      with t1 p1 Inl show ?thesis by (auto simp: passes_on_def)
    next
      case (Inr v)
      with "1.prems" True it have l: "loop E C task s1 = (res, s')"
        by (subst (asm) loop.simps) simp
      from "1.IH" [OF True it [symmetric] Inr l] obtain n2
        where t2: "trace s' = trace s1 @ n2" and p2: "passes_on E n2 res" by blast
      from p1 Inr have "quiet E n1" by (simp add: passes_on_def)
      then have "passes_on E (n1 @ n2) res" using p2 by (rule passes_on_seq)
      moreover have "trace s' = trace s @ (n1 @ n2)" using t1 t2 by simp
      ultimately show ?thesis by blast
    qed
  qed
qed

lemma quiet_butlast_index:
  assumes "quiet E (butlast xs)" and "i < length xs" and "interrupts E (xs ! i)"
  shows "Suc i = length xs"
proof (rule ccontr)
  assume "Suc i \<noteq> length xs"
  with assms(2) have "i < length (butlast xs)" by simp
  then have "butlast xs ! i \<in> set (butlast xs)" by (rule nth_mem)
  moreover have "butlast xs ! i = xs ! i"
    using \<open>i < length (butlast xs)\<close> by (rule nth_butlast)
  ultimately show False using assms(1,3) by (simp add: quiet_def)
qed

text \<open>
  C7. If a call of a run is interrupted, which is how an interrupt signal arrives during
  an iteration, then the result of the run has the status \<^verbatim>\<open>interrupted\<close> and success
  false, and the interrupted call is the last call of the run: no further pyautogui call,
  request or delay is started after it, so nothing of the action is left running.
\<close>

theorem interrupt_ends_run:
  assumes "i < length (calls_of_run E C task s0)"
    and "interrupts E (calls_of_run E C task s0 ! i)"
  shows "status (fst (run E C task s0)) = PStr ''interrupted''
       \<and> \<not> success (fst (run E C task s0))
       \<and> message (fst (run E C task s0)) = TaskInterrupted
       \<and> Suc i = length (calls_of_run E C task s0)"
proof -
  obtain res s' where l: "loop E C task (reset s0) = (res, s')"
    by (cases "loop E C task (reset s0)")
  from intr_loop [OF l] obtain new where t: "trace s' = trace s0 @ new"
    and p: "passes_on E new res" by (auto simp: reset_def)
  have s: "snd (run E C task s0) = s'"
    using l by (cases res) (simp_all add: run_def run_try_def bindM_def completion_def)
  have c: "calls_of_run E C task s0 = new"
    by (simp add: calls_of_run_def s t)
  from assms have "\<not> quiet E new"
    unfolding c quiet_def using nth_mem by blast
  with p have k: "res = Inl KeyboardInterrupt" and q: "quiet E (butlast new)"
    by (simp_all add: passes_on_def)
  have "Suc i = length new"
    using q assms unfolding c by (rule quiet_butlast_index)
  moreover have "fst (run E C task s0)
      = \<lparr>success = False, status = PStr ''interrupted'',
         message = TaskInterrupted, iterations = iteration_count s'\<rparr>"
    using l k by (simp add: run_def run_try_def bindM_def)
  ultimately show ?thesis by (simp add: c)
qed

text \<open>A world in which the model always asks for a key press, and the user interrupts
  the key press of the second iteration.\<close>

definition interrupted_key_press :: env where
  "interrupted_key_press =
     \<lparr>os_call = (\<lambda>k ev. if k = 2 \<and> ev = Press (PStr ''enter'')
                         then Some KeyboardInterrupt else None),
      chat = (\<lambda>k p. Inr (tool_call [(''action'', PStr ''key''), (''text'', PStr ''enter'')])),
      json_loads = (\<lambda>s. None)\<rparr>"

lemma calls_interrupted_key_press:
  "calls_of_run interrupted_key_press (limit 50) ''open notepad'' init_state
     = [(1, CaptureScreen), (1, ChatWithImage (next_prompt ''open notepad'')),
        (1, Press (PStr ''enter'')), (1, Sleep 1), (1, Sleep (1 / 2)),
        (2, CaptureScreen), (2, ChatWithImage (next_prompt ''open notepad'')),
        (2, Press (PStr ''enter''))]"
  by code_simp

theorem interrupt_ends_run_witness:
  "status (fst (run interrupted_key_press (limit 50) ''open notepad'' init_state))
     = PStr ''interrupted''
   \<and> \<not> success (fst (run interrupted_key_press (limit 50) ''open notepad'' init_state))
   \<and> message (fst (run interrupted_key_press (limit 50) ''open notepad'' init_state))
     = TaskInterrupted
   \<and> Suc 7 = length (calls_of_run interrupted_key_press (limit 50) ''open notepad'' init_state)"
proof (rule interrupt_ends_run)
  show "7 < length (calls_of_run interrupted_key_press (limit 50) ''open notepad'' init_state)"
    unfolding calls_interrupted_key_press by simp
  show "interrupts interrupted_key_press
      (calls_of_run interrupted_key_press (limit 50) ''open notepad'' init_state ! 7)"
    unfolding calls_interrupted_key_press
    by (simp add: interrupted_key_press_def)
qed

end
